theory Spec2Isabelle
  imports Complex_Main "HOL-Library.Log_Nat"
begin

section \<open>JavaScript numbers\<close>

text \<open>
  Every number of \<^verbatim>\<open>Controller.svelte\<close> is an ECMAScript Number: an IEEE 754 binary64
  value. A finite value is kept as the rational it denotes; the two infinities, NaN and the
  negative zero are constructors of their own (\<open>Fin 0\<close> is the positive zero). Each
  arithmetic operation computes the exact rational result and rounds it to the nearest
  binary64 value, ties to even, as ECMAScript prescribes.
\<close>

datatype jsnum = NaN | PInf | NInf | NZero | Fin rat

fun val :: "jsnum \<Rightarrow> rat" where
  "val (Fin q) = q"
| "val _ = 0"

fun is_finite :: "jsnum \<Rightarrow> bool" where
  "is_finite (Fin q) = True"
| "is_finite NZero = True"
| "is_finite _ = False"

fun sign_bit :: "jsnum \<Rightarrow> bool" where
  "sign_bit NInf = True"
| "sign_bit NZero = True"
| "sign_bit (Fin q) = (q < 0)"
| "sign_bit _ = False"

definition signed_zero :: "bool \<Rightarrow> jsnum" where
  "signed_zero neg = (if neg then NZero else Fin 0)"

definition signed_inf :: "bool \<Rightarrow> jsnum" where
  "signed_inf neg = (if neg then NInf else PInf)"

subsection \<open>Rounding to binary64\<close>

text \<open>Round to the nearest integer, a tie to the even neighbour.\<close>

definition round_half_even :: "rat \<Rightarrow> int" where
  "round_half_even r =
     (let f = \<lfloor>r\<rfloor>; d = r - of_int f
      in if d < 1 / 2 then f else if 1 / 2 < d then f + 1 else if even f then f else f + 1)"

text \<open>The binary exponent of a positive rational: \<open>2 powi expo r \<le> r < 2 powi (expo r + 1)\<close>.\<close>

definition expo :: "rat \<Rightarrow> int" where
  "expo r = (let (a, b) = quotient_of r; d = bitlen a - bitlen b
             in if r < 2 powi d then d - 1 else d)"

text \<open>
  The spacing of the binary64 values around a positive rational: 53 significant bits,
  and the fixed spacing \<open>2 powi (- 1074)\<close> of the subnormal range below \<open>2 powi (- 1022)\<close>.
\<close>

definition ulp :: "rat \<Rightarrow> rat" where
  "ulp r = 2 powi (max (expo r) (- 1022) - 52)"

definition round_mag :: "rat \<Rightarrow> rat" where
  "round_mag r = of_int (round_half_even (r / ulp r)) * ulp r"

definition overflow_threshold :: rat where
  "overflow_threshold = 2 powi 1024"

text \<open>
  The Number nearest to an exact result \<open>q\<close>. A magnitude that rounds to \<open>2 powi 1024\<close>
  or more overflows to an infinity; a nonzero result that rounds to zero keeps its sign;
  an exact zero is the positive zero (the callers handle the signed cases).
\<close>

definition rnd :: "rat \<Rightarrow> jsnum" where
  "rnd q =
     (if q = 0 then Fin 0
      else let m = round_mag \<bar>q\<bar>
           in if overflow_threshold \<le> m then signed_inf (q < 0)
              else if m = 0 then signed_zero (q < 0)
              else Fin (if q < 0 then - m else m))"

subsection \<open>Arithmetic and comparison\<close>

fun js_neg :: "jsnum \<Rightarrow> jsnum" where
  "js_neg NaN = NaN"
| "js_neg PInf = NInf"
| "js_neg NInf = PInf"
| "js_neg NZero = Fin 0"
| "js_neg (Fin q) = (if q = 0 then NZero else Fin (- q))"

fun js_add :: "jsnum \<Rightarrow> jsnum \<Rightarrow> jsnum" where
  "js_add NaN y = NaN"
| "js_add x NaN = NaN"
| "js_add PInf NInf = NaN"
| "js_add NInf PInf = NaN"
| "js_add PInf y = PInf"
| "js_add NInf y = NInf"
| "js_add x PInf = PInf"
| "js_add x NInf = NInf"
| "js_add NZero NZero = NZero"
| "js_add x y = rnd (val x + val y)"

text \<open>\<^verbatim>\<open>x - y\<close> is \<^verbatim>\<open>x + (-y)\<close> (Number::subtract).\<close>

definition js_sub :: "jsnum \<Rightarrow> jsnum \<Rightarrow> jsnum" where
  "js_sub x y = js_add x (js_neg y)"

definition js_mul :: "jsnum \<Rightarrow> jsnum \<Rightarrow> jsnum" where
  "js_mul x y =
     (if x = NaN \<or> y = NaN then NaN
      else if \<not> is_finite x then
        (if is_finite y \<and> val y = 0 then NaN else signed_inf (sign_bit x \<noteq> sign_bit y))
      else if \<not> is_finite y then
        (if val x = 0 then NaN else signed_inf (sign_bit x \<noteq> sign_bit y))
      else if val x = 0 \<or> val y = 0 then signed_zero (sign_bit x \<noteq> sign_bit y)
      else rnd (val x * val y))"

definition js_div :: "jsnum \<Rightarrow> jsnum \<Rightarrow> jsnum" where
  "js_div x y =
     (if x = NaN \<or> y = NaN then NaN
      else if \<not> is_finite x then
        (if \<not> is_finite y then NaN else signed_inf (sign_bit x \<noteq> sign_bit y))
      else if \<not> is_finite y then signed_zero (sign_bit x \<noteq> sign_bit y)
      else if val x = 0 then
        (if val y = 0 then NaN else signed_zero (sign_bit x \<noteq> sign_bit y))
      else if val y = 0 then signed_inf (sign_bit x \<noteq> sign_bit y)
      else rnd (val x / val y))"

text \<open>\<^verbatim>\<open>x < y\<close>: false as soon as an operand is NaN; the two zeros are equal.\<close>

fun js_lt :: "jsnum \<Rightarrow> jsnum \<Rightarrow> bool" where
  "js_lt NaN y = False"
| "js_lt x NaN = False"
| "js_lt PInf y = False"
| "js_lt x NInf = False"
| "js_lt NInf y = True"
| "js_lt x PInf = True"
| "js_lt x y = (val x < val y)"

text \<open>\<^verbatim>\<open>x <= y\<close>, used to state order properties.\<close>

definition js_le :: "jsnum \<Rightarrow> jsnum \<Rightarrow> bool" where
  "js_le x y = (x \<noteq> NaN \<and> y \<noteq> NaN \<and> \<not> js_lt y x)"

text \<open>\<^verbatim>\<open>x === y\<close> on Numbers: NaN equals nothing, the two zeros are equal.\<close>

definition js_eq :: "jsnum \<Rightarrow> jsnum \<Rightarrow> bool" where
  "js_eq x y = (x \<noteq> NaN \<and> y \<noteq> NaN \<and> \<not> js_lt x y \<and> \<not> js_lt y x)"

text \<open>\<^verbatim>\<open>Math.min(x, y)\<close>: NaN if an operand is NaN; the negative zero is below the positive.\<close>

definition Math_min :: "jsnum \<Rightarrow> jsnum \<Rightarrow> jsnum" where
  "Math_min x y =
     (if x = NaN \<or> y = NaN then NaN
      else if js_lt y x then y
      else if js_lt x y then x
      else if x = NZero then x else y)"

subsection \<open>Number.prototype.toFixed(2)\<close>

fun digits :: "nat \<Rightarrow> string" where
  "digits n =
     (if n < 10 then [''0123456789'' ! n]
      else digits (n div 10) @ [''0123456789'' ! (n mod 10)])"

declare digits.simps [simp del]

text \<open>
  The digits of \<open>n / 100\<close> with two decimals, \<open>n\<close> being the integer for which
  \<open>n / 100\<close> is nearest to the value (the larger one at a tie): steps 8 to 10 of
  Number.prototype.toFixed with \<open>fractionDigits = 2\<close>.
\<close>

definition hundredths :: "rat \<Rightarrow> nat" where
  "hundredths a = nat \<lfloor>a * 100 + 1 / 2\<rfloor>"

definition fixed2 :: "nat \<Rightarrow> string" where
  "fixed2 n =
     (let m = digits n;
          m = (if length m \<le> 2 then replicate (3 - length m) (CHR ''0'') @ m else m)
      in take (length m - 2) m @ ''.'' @ drop (length m - 2) m)"

text \<open>
  \<^verbatim>\<open>x.toFixed(2)\<close>. A magnitude of \<open>10^21\<close> or more is printed by Number::toString in
  exponential notation; that conversion is the parameter \<open>big\<close>, applied to the magnitude.
\<close>

fun toFixed2 :: "(rat \<Rightarrow> string) \<Rightarrow> jsnum \<Rightarrow> string" where
  "toFixed2 big NaN = ''NaN''"
| "toFixed2 big PInf = ''Infinity''"
| "toFixed2 big NInf = ''-Infinity''"
| "toFixed2 big NZero = fixed2 (hundredths 0)"
| "toFixed2 big (Fin q) =
     (if q < 0 then ''-'' else '''') @
     (if 10 ^ 21 \<le> \<bar>q\<bar> then big \<bar>q\<bar> else fixed2 (hundredths \<bar>q\<bar>))"

section \<open>Derived values of the controller\<close>

subsection \<open>The progress fraction\<close>

text \<open>
  \<^verbatim>\<open>const percent = Math.min(1, currentTime / meta.totalTime)\<close>, the payload of the
  \<^verbatim>\<open>ui-update-progress\<close> notification.
\<close>

definition percent :: "jsnum \<Rightarrow> jsnum \<Rightarrow> jsnum" where
  "percent currentTime totalTime = Math_min (Fin 1) (js_div currentTime totalTime)"

text \<open>
  The template literal \<^verbatim>\<open>`${100 * percent}%`\<close>: \<open>Percent n\<close> stands for the text of the
  Number \<open>n\<close> followed by the percent sign.
\<close>

datatype css_percentage = Percent jsnum

fun numeric_value :: "css_percentage \<Rightarrow> jsnum" where
  "numeric_value (Percent n) = n"

definition percentage :: "jsnum \<Rightarrow> jsnum \<Rightarrow> css_percentage" where
  "percentage currentTime totalTime = Percent (js_mul (Fin 100) (percent currentTime totalTime))"

subsection \<open>Custom event markers\<close>

datatype EventType =
  DomContentLoaded | Load | FullSnapshot | IncrementalSnapshot | Meta | Custom | Plugin

text \<open>
  An entry of the event log, as far as the controller reads it: the timestamp, the type and,
  for a custom event, \<^verbatim>\<open>data.tag\<close>.
\<close>

record event =
  timestamp :: jsnum
  ev_type :: EventType
  tag :: string

record CustomEvent =
  name :: string
  background :: string
  position :: string

datatype js_error = TypeError

text \<open>The closure \<^verbatim>\<open>position\<close> of the source: it returns \<^verbatim>\<open>eventPosition.toFixed(2)\<close>.\<close>

definition tag_position :: "(rat \<Rightarrow> string) \<Rightarrow> jsnum \<Rightarrow> jsnum \<Rightarrow> jsnum \<Rightarrow> string" where
  "tag_position big startTime endTime tagTime =
     (let sessionDuration = js_sub endTime startTime;
          eventDuration = js_sub endTime tagTime;
          eventPosition =
            js_sub (Fin 100) (js_mul (js_div eventDuration sessionDuration) (Fin 100))
      in toFixed2 big eventPosition)"

text \<open>
  \<^verbatim>\<open>tags[event.data.tag] || 'rgb(73, 80, 246)'\<close>: the default also replaces an empty
  colour string, which is falsy. The map \<open>tags\<close> holds the own properties of the
  \<^verbatim>\<open>tags\<close> object; a tag that names a property inherited from \<^verbatim>\<open>Object.prototype\<close>
  is outside the model.
\<close>

definition tag_background :: "(string \<rightharpoonup> string) \<Rightarrow> string \<Rightarrow> string" where
  "tag_background tags t =
     (case tags t of
        None \<Rightarrow> ''rgb(73, 80, 246)''
      | Some c \<Rightarrow> if c = [] then ''rgb(73, 80, 246)'' else c)"

text \<open>The \<^verbatim>\<open>forEach\<close> loop: one marker pushed per custom event, in log order.\<close>

fun collect ::
  "(rat \<Rightarrow> string) \<Rightarrow> (string \<rightharpoonup> string) \<Rightarrow> jsnum \<Rightarrow> jsnum \<Rightarrow> event list \<Rightarrow> CustomEvent list"
where
  "collect big tags startT endT [] = []"
| "collect big tags startT endT (e # es) =
     (if ev_type e = Custom
      then \<lparr>name = tag e, background = tag_background tags (tag e),
            position = tag_position big startT endT (timestamp e) @ ''%''\<rparr>
           # collect big tags startT endT es
      else collect big tags startT endT es)"

text \<open>
  The reactive block computing \<^verbatim>\<open>customEvents\<close>. On an empty log
  \<^verbatim>\<open>context.events[0]\<close> is \<^verbatim>\<open>undefined\<close> and reading its \<^verbatim>\<open>timestamp\<close> throws.
\<close>

definition customEvents ::
  "(rat \<Rightarrow> string) \<Rightarrow> (string \<rightharpoonup> string) \<Rightarrow> event list \<Rightarrow> js_error + CustomEvent list"
where
  "customEvents big tags events =
     (if events = [] then Inl TypeError
      else Inr (collect big tags (timestamp (hd events)) (timestamp (last events)) events))"

section \<open>The controller and its collaborators\<close>

datatype PlayerState = Playing | Paused | Live

datatype SpeedState = Normal | Skipping

text \<open>The calls the controller makes on the replayer.\<close>

datatype EngineCall =
  Play "jsnum option"
| Pause
| SetConfigSpeed jsnum
| SetConfigSkipInactive bool

text \<open>What the replayer emits to the two subscriptions of \<^verbatim>\<open>onMount\<close>.\<close>

datatype EngineEvent =
  StateChange "PlayerState option" "SpeedState option"
| Finish

text \<open>
  The replayer is not part of the repository. It is a parameter of the model: for a call and
  the player state it is in, the events it emits, in order, before the call returns. Its
  player state afterwards is the last one it announced.
\<close>

type_synonym engine = "EngineCall \<Rightarrow> PlayerState \<Rightarrow> EngineEvent list"

text \<open>
  The component's variables, what it shares with the replayer (\<open>engine_state\<close>, the
  replayer's player state; \<open>config_skipInactive\<close>; \<open>totalTime\<close>, that is
  \<^verbatim>\<open>meta.totalTime\<close>; \<open>calls\<close>, the log of the calls made so far), and the
  browser's animation frames: \<open>frames\<close> holds the handles of the pending requests for
  \<^verbatim>\<open>update\<close>, \<open>last_handle\<close> the last handle the browser gave out.
\<close>

record world =
  currentTime :: jsnum
  timer :: "nat option"
  playerState :: PlayerState
  speedState :: SpeedState
  finished :: bool
  speed :: jsnum
  skipInactive :: bool
  totalTime :: jsnum
  engine_state :: PlayerState
  config_skipInactive :: bool
  calls :: "EngineCall list"
  frames :: "nat set"
  last_handle :: nat

subsection \<open>The timer loop\<close>

text \<open>Handles are positive and never given out twice.\<close>

definition requestAnimationFrame :: "world \<Rightarrow> nat \<times> world" where
  "requestAnimationFrame w =
     (let h = Suc (last_handle w)
      in (h, w\<lparr>last_handle := h, frames := insert h (frames w)\<rparr>))"

definition cancelAnimationFrame :: "nat \<Rightarrow> world \<Rightarrow> world" where
  "cancelAnimationFrame h w = w\<lparr>frames := frames w - {h}\<rparr>"

text \<open>\<^verbatim>\<open>if (timer)\<close> holds for a handle other than \<^verbatim>\<open>null\<close> and \<open>0\<close>.\<close>

definition stopTimer :: "world \<Rightarrow> world" where
  "stopTimer w =
     (case timer w of
        None \<Rightarrow> w
      | Some h \<Rightarrow> if h \<noteq> 0 then (cancelAnimationFrame h w)\<lparr>timer := None\<rparr> else w)"

definition loopTimer :: "world \<Rightarrow> world" where
  "loopTimer w =
     (let w = stopTimer w;
          (h, w) = requestAnimationFrame w
      in w\<lparr>timer := Some h\<rparr>)"

text \<open>
  The browser runs the callback of the pending request \<open>h\<close>; \<open>now\<close> is what
  \<^verbatim>\<open>replayer.getCurrentTime()\<close> returns. A handle that is not pending runs nothing.
\<close>

definition update :: "nat \<Rightarrow> jsnum \<Rightarrow> world \<Rightarrow> world" where
  "update h now w =
     (if h \<notin> frames w then w
      else let w = w\<lparr>frames := frames w - {h}\<rparr>;
               w = w\<lparr>currentTime := now\<rparr>
           in if js_lt (currentTime w) (totalTime w)
              then let (h', w) = requestAnimationFrame w in w\<lparr>timer := Some h'\<rparr>
              else w)"

subsection \<open>The subscriptions\<close>

text \<open>The \<^verbatim>\<open>state-change\<close> handler and the \<^verbatim>\<open>finish\<close> handler.\<close>

fun handle_event :: "EngineEvent \<Rightarrow> world \<Rightarrow> world" where
  "handle_event (StateChange player spd) w =
     (let w = (case player of
                 None \<Rightarrow> w
               | Some p \<Rightarrow>
                   if playerState w \<noteq> p then
                     (let w = w\<lparr>playerState := p\<rparr>
                      in case p of Playing \<Rightarrow> loopTimer w | Paused \<Rightarrow> stopTimer w | Live \<Rightarrow> w)
                   else w)
      in case spd of
           None \<Rightarrow> w
         | Some v \<Rightarrow> if speedState w \<noteq> v then w\<lparr>speedState := v\<rparr> else w)"
| "handle_event Finish w = w\<lparr>finished := True\<rparr>"

text \<open>The replayer moves to each player state it announces, then the handler runs.\<close>

fun emit :: "EngineEvent \<Rightarrow> world \<Rightarrow> world" where
  "emit (StateChange (Some p) spd) w =
     handle_event (StateChange (Some p) spd) (w\<lparr>engine_state := p\<rparr>)"
| "emit ev w = handle_event ev w"

text \<open>A call on the replayer: logged, then the events it emits are handled in order.\<close>

definition replayer_call :: "engine \<Rightarrow> EngineCall \<Rightarrow> world \<Rightarrow> world" where
  "replayer_call E c w =
     fold emit (E c (engine_state w)) (w\<lparr>calls := calls w @ [c]\<rparr>)"

subsection \<open>The operations\<close>

definition play :: "engine \<Rightarrow> world \<Rightarrow> world" where
  "play E w =
     (if playerState w \<noteq> Paused then w
      else if finished w then (replayer_call E (Play None) w)\<lparr>finished := False\<rparr>
      else replayer_call E (Play (Some (currentTime w))) w)"

definition pause :: "engine \<Rightarrow> world \<Rightarrow> world" where
  "pause E w = (if playerState w \<noteq> Playing then w else replayer_call E Pause w)"

definition toggle :: "engine \<Rightarrow> world \<Rightarrow> world" where
  "toggle E w =
     (case playerState w of
        Playing \<Rightarrow> pause E w
      | Paused \<Rightarrow> play E w
      | Live \<Rightarrow> w)"

definition goto :: "engine \<Rightarrow> jsnum \<Rightarrow> world \<Rightarrow> world" where
  "goto E timeOffset w =
     (let w = w\<lparr>currentTime := timeOffset\<rparr>;
          isPlaying = (playerState w = Playing);
          w = replayer_call E Pause w;
          w = replayer_call E (Play (Some timeOffset)) w
      in if \<not> isPlaying then replayer_call E Pause w else w)"

text \<open>
  \<open>clientX\<close> is \<^verbatim>\<open>event.clientX\<close>; \<open>left\<close> and \<open>width\<close> are those of
  \<^verbatim>\<open>progress.getBoundingClientRect()\<close>.
\<close>

definition clamp_percent :: "jsnum \<Rightarrow> jsnum" where
  "clamp_percent p = (if js_lt p (Fin 0) then Fin 0 else if js_lt (Fin 1) p then Fin 1 else p)"

definition handleProgressClick :: "engine \<Rightarrow> jsnum \<Rightarrow> jsnum \<Rightarrow> jsnum \<Rightarrow> world \<Rightarrow> world" where
  "handleProgressClick E clientX left width w =
     (if speedState w = Skipping then w
      else let x = js_sub clientX left;
               p = clamp_percent (js_div x width);
               timeOffset = js_mul (totalTime w) p
           in goto E timeOffset w)"

definition setSpeed :: "engine \<Rightarrow> jsnum \<Rightarrow> world \<Rightarrow> world" where
  "setSpeed E newSpeed w =
     (let needFreeze = (playerState w = Playing);
          w = w\<lparr>speed := newSpeed\<rparr>;
          w = (if needFreeze then replayer_call E Pause w else w);
          w = replayer_call E (SetConfigSpeed (speed w)) w
      in if needFreeze then replayer_call E (Play (Some (currentTime w))) w else w)"

definition toggleSkipInactive :: "world \<Rightarrow> world" where
  "toggleSkipInactive w = w\<lparr>skipInactive := \<not> skipInactive w\<rparr>"

text \<open>
  The \<^verbatim>\<open>afterUpdate\<close> callback of a render pass. After \<^verbatim>\<open>setConfig\<close> the replayer's
  \<^verbatim>\<open>config.skipInactive\<close> is the value passed.
\<close>

definition afterUpdate :: "engine \<Rightarrow> world \<Rightarrow> world" where
  "afterUpdate E w =
     (if skipInactive w \<noteq> config_skipInactive w
      then (replayer_call E (SetConfigSkipInactive (skipInactive w)) w)
             \<lparr>config_skipInactive := skipInactive w\<rparr>
      else w)"

text \<open>
  \<^verbatim>\<open>onMount\<close>, run on the component's initial variables: \<^verbatim>\<open>currentTime = 0\<close>,
  \<^verbatim>\<open>timer = null\<close>, \<^verbatim>\<open>finished\<close> undefined (falsy). The arguments are the props and
  what the replayer and the browser hold at that moment.
\<close>

definition onMount ::
  "engine \<Rightarrow> bool \<Rightarrow> bool \<Rightarrow> jsnum \<Rightarrow> jsnum \<Rightarrow> PlayerState \<Rightarrow> SpeedState \<Rightarrow> bool \<Rightarrow> nat \<Rightarrow> world"
where
  "onMount E autoPlay skipInactive0 speed0 total0 player0 speed_state0 config0 handle0 =
     (let w = \<lparr>currentTime = Fin 0, timer = None, playerState = player0,
                speedState = speed_state0, finished = False, speed = speed0,
                skipInactive = skipInactive0, totalTime = total0, engine_state = player0,
                config_skipInactive = config0, calls = [], frames = {},
                last_handle = handle0\<rparr>
      in if autoPlay then replayer_call E (Play None) w else w)"

definition onDestroy :: "engine \<Rightarrow> world \<Rightarrow> world" where
  "onDestroy E w = stopTimer (replayer_call E Pause w)"

subsection \<open>Runs of the component\<close>

text \<open>
  What can happen to a mounted component: a call of an exported operation, a click on the
  progress track, a render pass, an event emitted by the replayer on its own, a pending
  animation frame being run, another script taking an animation frame handle, the
  replayer's metadata changing, and the teardown.
\<close>

datatype action =
  Toggle
| DoPlay
| DoPause
| Goto jsnum
| ProgressClick jsnum jsnum jsnum
| SetSpeed jsnum
| ToggleSkipInactive
| AfterUpdate
| Emitted EngineEvent
| Frame nat jsnum
| OtherFrameRequest
| MetaChanged jsnum
| Destroy

fun step :: "engine \<Rightarrow> action \<Rightarrow> world \<Rightarrow> world" where
  "step E Toggle w = toggle E w"
| "step E DoPlay w = play E w"
| "step E DoPause w = pause E w"
| "step E (Goto t) w = goto E t w"
| "step E (ProgressClick clientX left width) w = handleProgressClick E clientX left width w"
| "step E (SetSpeed v) w = setSpeed E v w"
| "step E ToggleSkipInactive w = toggleSkipInactive w"
| "step E AfterUpdate w = afterUpdate E w"
| "step E (Emitted ev) w = emit ev w"
| "step E (Frame h now) w = update h now w"
| "step E OtherFrameRequest w = w\<lparr>last_handle := Suc (last_handle w)\<rparr>"
| "step E (MetaChanged total0) w = w\<lparr>totalTime := total0\<rparr>"
| "step E Destroy w = onDestroy E w"

definition run :: "engine \<Rightarrow> action list \<Rightarrow> world \<Rightarrow> world" where
  "run E acts w = fold (step E) acts w"

section \<open>Notions used to state the properties\<close>

subsection \<open>Numbers on the extended line\<close>

text \<open>
  The position of a Number other than NaN on the line of the rationals, the infinities
  standing at the overflow threshold, which no finite result of a rounding reaches.
\<close>

definition ext :: "jsnum \<Rightarrow> rat" where
  "ext x = (case x of PInf \<Rightarrow> overflow_threshold | NInf \<Rightarrow> - overflow_threshold | _ \<Rightarrow> val x)"

definition bounded :: "jsnum \<Rightarrow> bool" where
  "bounded x = (x \<noteq> NaN \<and> \<bar>val x\<bar> < overflow_threshold)"

text \<open>The position of \<open>rnd q\<close> on that line.\<close>

definition rounded :: "rat \<Rightarrow> rat" where
  "rounded q = sgn q * min (round_mag \<bar>q\<bar>) overflow_threshold"

text \<open>The position of the result of a monotone operation, from its operand.\<close>

definition lift :: "(rat \<Rightarrow> rat) \<Rightarrow> jsnum \<Rightarrow> rat" where
  "lift f x = (case x of PInf \<Rightarrow> overflow_threshold | NInf \<Rightarrow> - overflow_threshold
               | _ \<Rightarrow> rounded (f (val x)))"

subsection \<open>The marker position in exact arithmetic\<close>

text \<open>
  The position as the specification words it: \<open>100 (tm - t0) / (t1 - t0)\<close>, computed
  exactly and written with two decimals.
\<close>

definition spec_position :: "rat \<Rightarrow> rat \<Rightarrow> rat \<Rightarrow> string" where
  "spec_position t0 t1 tm = fixed2 (hundredths (100 * (tm - t0) / (t1 - t0))) @ ''%''"

subsection \<open>What the controller expects of the replayer\<close>

text \<open>The player state the replayer is in after emitting a list of events.\<close>

fun announced :: "EngineEvent list \<Rightarrow> PlayerState \<Rightarrow> PlayerState" where
  "announced [] s = s"
| "announced (StateChange (Some p) spd # evs) s = announced evs p"
| "announced (ev # evs) s = announced evs s"

text \<open>
  The player machine of the replayer, as far as \<^verbatim>\<open>goto\<close> relies on it: a paused replayer
  plays when told to, a playing one pauses when told to, pausing a paused one changes
  nothing, and a live one ignores both calls.
\<close>

definition player_machine :: "engine \<Rightarrow> bool" where
  "player_machine E =
     ((\<forall>t. announced (E (Play t) Paused) Paused = Playing) \<and>
      announced (E Pause Playing) Playing = Paused \<and>
      announced (E Pause Paused) Paused = Paused \<and>
      announced (E Pause Live) Live = Live \<and>
      (\<forall>t. announced (E (Play t) Live) Live = Live))"

text \<open>The controller's copy of the player state is the replayer's player state.\<close>

definition in_step :: "world \<Rightarrow> bool" where
  "in_step w = (playerState w = engine_state w)"

text \<open>The replayer emits no \<^verbatim>\<open>finish\<close> event while it serves a call.\<close>

definition never_finishes :: "engine \<Rightarrow> bool" where
  "never_finishes E = (\<forall>c s. Finish \<notin> set (E c s))"

text \<open>
  An engine with that machine: \<^verbatim>\<open>play\<close> on a playing replayer pauses and plays again.
\<close>

definition sample_engine :: engine where
  "sample_engine c s =
     (case c of
        Play t \<Rightarrow>
          (case s of
             Paused \<Rightarrow> [StateChange (Some Playing) None]
           | Playing \<Rightarrow> [StateChange (Some Paused) None, StateChange (Some Playing) None]
           | Live \<Rightarrow> [])
      | Pause \<Rightarrow> (if s = Playing then [StateChange (Some Paused) None] else [])
      | SetConfigSpeed v \<Rightarrow> []
      | SetConfigSkipInactive b \<Rightarrow> [])"

text \<open>A controller mounted on a paused replayer holding a recording of one second.\<close>

definition sample_world :: world where
  "sample_world = onMount sample_engine False False (Fin 1) (Fin 1000) Paused Normal False 0"

text \<open>
  The sample controller after the recording has finished and \<^verbatim>\<open>play()\<close> has run, and
  after a \<^verbatim>\<open>pause()\<close> and a \<^verbatim>\<open>goto(400)\<close> that follow.
\<close>

definition sample_replay :: world where
  "sample_replay = play sample_engine (emit Finish sample_world)"

definition sample_later :: world where
  "sample_later = run sample_engine [DoPause, Goto (Fin 400)] sample_replay"

text \<open>
  The sample controller playing, after its first animation frame, and paused again.
\<close>

definition sample_playing :: world where
  "sample_playing = run sample_engine [DoPlay, Frame 1 (Fin 10)] sample_world"

definition sample_paused :: world where
  "sample_paused = run sample_engine [DoPlay, Frame 1 (Fin 10), DoPause] sample_world"

subsection \<open>The timer loop\<close>

text \<open>
  The loop is active when a request for \<^verbatim>\<open>update\<close> is pending. At most one is, and
  \<^verbatim>\<open>timer\<close> holds its handle.
\<close>

definition loop_ok :: "world \<Rightarrow> bool" where
  "loop_ok w = (frames w = {} \<or> (\<exists>h. h \<noteq> 0 \<and> timer w = Some h \<and> frames w = {h}))"

definition timer_inv :: "world \<Rightarrow> bool" where
  "timer_inv w = (loop_ok w \<and> (playerState w = Paused \<longrightarrow> frames w = {}))"

subsection \<open>Event logs of the scenarios\<close>

definition scenario_log :: "event list" where
  "scenario_log =
     [\<lparr>timestamp = Fin 0, ev_type = Custom, tag = ''A''\<rparr>,
      \<lparr>timestamp = Fin 500, ev_type = FullSnapshot, tag = []\<rparr>,
      \<lparr>timestamp = Fin 1000, ev_type = Custom, tag = ''B''\<rparr>]"

definition zero_duration_log :: "event list" where
  "zero_duration_log =
     [\<lparr>timestamp = Fin 5, ev_type = Custom, tag = ''A''\<rparr>,
      \<lparr>timestamp = Fin 5, ev_type = Custom, tag = ''B''\<rparr>]"

section \<open>Properties of the rounding\<close>

subsection \<open>The binary exponent\<close>

lemma bitlen_powi_bounds:
  assumes "0 < a"
  shows "(2::rat) powi (bitlen a - 1) \<le> of_int a" "of_int a < (2::rat) powi (bitlen a)"
proof -
  have b: "2 ^ nat (bitlen a - 1) \<le> a" "a < 2 ^ nat (bitlen a)"
    using bitlen_bounds [OF assms] by auto
  have p: "0 < bitlen a" using assms bitlen_nonneg [of a] bitlen_eq_zero_iff [of a] by linarith
  have "(2::rat) powi (bitlen a - 1) = 2 ^ nat (bitlen a - 1)"
    using p by (simp add: power_int_def)
  also have "\<dots> = of_int (2 ^ nat (bitlen a - 1))" by simp
  also have "\<dots> \<le> of_int a" using b(1) by (simp only: of_int_le_iff)
  finally show "(2::rat) powi (bitlen a - 1) \<le> of_int a" .
  have "(of_int a :: rat) < of_int (2 ^ nat (bitlen a))" using b(2) by (simp only: of_int_less_iff)
  also have "\<dots> = 2 ^ nat (bitlen a)" by simp
  also have "\<dots> = (2::rat) powi (bitlen a)" using p by (simp add: power_int_def)
  finally show "of_int a < (2::rat) powi (bitlen a)" .
qed

lemma expo_bounds:
  assumes "0 < r"
  shows "2 powi expo r \<le> r \<and> r < 2 powi (expo r + 1)"
proof -
  obtain a b where q: "quotient_of r = (a, b)" by (cases "quotient_of r")
  have r: "r = of_int a / of_int b" and b: "0 < b"
    using quotient_of_div [OF q] quotient_of_denom_pos [OF q] by auto
  have a: "0 < a" using assms r b by (simp add: zero_less_divide_iff)
  define d where "d = bitlen a - bitlen b"
  note A = bitlen_powi_bounds [OF a] and B = bitlen_powi_bounds [OF b]
  have bpos: "(0::rat) < of_int b" using b by simp
  have "d - 1 = (bitlen a - 1) - bitlen b" "d + 1 = bitlen a - (bitlen b - 1)"
    by (simp_all add: d_def)
  then have d1: "(2::rat) powi (d - 1) = 2 powi (bitlen a - 1) / 2 powi (bitlen b)"
    and d2: "(2::rat) powi (d + 1) = 2 powi (bitlen a) / 2 powi (bitlen b - 1)"
    by (simp_all only: power_int_diff [of "2::rat", simplified])
  have lo: "(2::rat) powi (d - 1) \<le> r"
    unfolding d1 r using A B bpos a
    by (intro frac_le) (auto intro: less_imp_le)
  have hi: "r < (2::rat) powi (d + 1)"
    unfolding d2 r using A B bpos a
    by (intro frac_less) (auto intro: less_imp_le)
  have e: "expo r = (if r < 2 powi d then d - 1 else d)"
    by (simp add: expo_def q d_def)
  show ?thesis using lo hi e by (auto simp: )
qed

lemma powi2_mono: "a \<le> b \<Longrightarrow> (2::rat) powi a \<le> 2 powi b"
  by (rule power_int_increasing) auto

lemma powi2_less_imp: "(2::rat) powi a < 2 powi b \<Longrightarrow> a < b"
  using powi2_mono [of b a] by (cases "a < b") auto

lemma expo_unique:
  assumes "2 powi e \<le> r" "r < 2 powi (e + 1)"
  shows "expo r = e"
proof -
  have "0 < r" using assms(1) by (smt (verit) zero_less_power_int zero_less_numeral order_less_le_trans)
  note E = expo_bounds [OF this]
  have "(2::rat) powi e < 2 powi (expo r + 1)" using assms E by linarith
  then have 1: "e < expo r + 1" by (rule powi2_less_imp)
  have "(2::rat) powi (expo r) < 2 powi (e + 1)" using assms E by linarith
  then have 2: "expo r < e + 1" by (rule powi2_less_imp)
  show ?thesis using 1 2 by simp
qed

subsection \<open>Rounding to an integer and to a binary64 magnitude\<close>

lemma powi2_add: "(2::rat) powi (a + b) = 2 powi a * 2 powi b"
  by (rule power_int_add) simp

lemma powi2_diff: "(2::rat) powi (a - b) = 2 powi a / 2 powi b"
  by (rule power_int_diff) simp

lemma powi2_split53: "(2::rat) powi (e + 1) = 2 powi 53 * 2 powi (e - 52)"
proof -
  have "(2::rat) powi (53 + (e - 52)) = 2 powi 53 * 2 powi (e - 52)" by (rule powi2_add)
  moreover have "53 + (e - 52) = e + 1" by simp
  ultimately show ?thesis by (simp only:)
qed

lemma powi2_split52: "(2::rat) powi e = 2 powi 52 * 2 powi (e - 52)"
proof -
  have "(2::rat) powi (52 + (e - 52)) = 2 powi 52 * 2 powi (e - 52)" by (rule powi2_add)
  moreover have "52 + (e - 52) = e" by simp
  ultimately show ?thesis by (simp only:)
qed

lemma rhe_cases:
  "round_half_even r = \<lfloor>r\<rfloor> \<or> round_half_even r = \<lfloor>r\<rfloor> + 1"
  by (simp add: round_half_even_def Let_def)

lemma rhe_err: "\<bar>of_int (round_half_even r) - r\<bar> \<le> 1 / 2"
proof -
  have "of_int \<lfloor>r\<rfloor> \<le> r" "r < of_int \<lfloor>r\<rfloor> + 1" by linarith+
  then show ?thesis by (auto simp: round_half_even_def Let_def)
qed

lemma rhe_eqI:
  assumes "\<bar>r - of_int k\<bar> < 1 / 2"
  shows "round_half_even r = k"
proof -
  have "\<bar>of_int (round_half_even r) - (of_int k :: rat)\<bar> < 1"
    using rhe_err [of r] assms by linarith
  then have "\<bar>(of_int (round_half_even r - k) :: rat)\<bar> < 1" by simp
  then have "\<bar>round_half_even r - k\<bar> < 1" by (metis of_int_abs of_int_less_1_iff)
  then show ?thesis by simp
qed

lemma rhe_of_int [simp]: "round_half_even (of_int k) = k"
  by (rule rhe_eqI) simp

lemma rhe_mono:
  assumes "r \<le> s"
  shows "round_half_even r \<le> round_half_even s"
proof (cases "\<lfloor>r\<rfloor> = \<lfloor>s\<rfloor>")
  case True
  then show ?thesis using assms by (auto simp: round_half_even_def Let_def)
next
  case False
  then have "\<lfloor>r\<rfloor> + 1 \<le> \<lfloor>s\<rfloor>" using floor_mono [OF assms] by linarith
  moreover have "round_half_even r \<le> \<lfloor>r\<rfloor> + 1" using rhe_cases [of r] by auto
  moreover have "\<lfloor>s\<rfloor> \<le> round_half_even s" using rhe_cases [of s] by auto
  ultimately show ?thesis by linarith
qed

lemma rhe_ge: "of_int k \<le> r \<Longrightarrow> k \<le> round_half_even r"
  using rhe_mono [of "of_int k" r] by simp

lemma rhe_le: "r \<le> of_int k \<Longrightarrow> round_half_even r \<le> k"
  using rhe_mono [of r "of_int k"] by simp

lemma ulp_pos [simp]: "0 < ulp r"
  by (simp add: ulp_def)

lemma round_mag_err: "\<bar>round_mag r - r\<bar> \<le> ulp r / 2"
proof -
  have "\<bar>of_int (round_half_even (r / ulp r)) - r / ulp r\<bar> * ulp r \<le> 1 / 2 * ulp r"
    by (intro mult_right_mono rhe_err) (simp add: less_imp_le)
  moreover have "\<bar>of_int (round_half_even (r / ulp r)) - r / ulp r\<bar> * ulp r
      = \<bar>round_mag r - r\<bar>"
  proof -
    have "\<bar>of_int (round_half_even (r / ulp r)) - r / ulp r\<bar> * \<bar>ulp r\<bar>
      = \<bar>(of_int (round_half_even (r / ulp r)) - r / ulp r) * ulp r\<bar>"
      by (simp only: abs_mult)
    also have "(of_int (round_half_even (r / ulp r)) - r / ulp r) * ulp r = round_mag r - r"
      using ulp_pos [of r] by (simp add: round_mag_def left_diff_distrib less_imp_neq [THEN not_sym])
    finally show ?thesis using ulp_pos [of r] by (simp add: abs_of_pos)
  qed
  ultimately show ?thesis by simp
qed

lemma round_mag_bounds:
  assumes r: "0 < r" and e: "e = max (expo r) (- 1022)"
  shows "round_mag r \<le> 2 powi (e + 1)"
    and "- 1022 \<le> expo r \<Longrightarrow> 2 powi e \<le> round_mag r"
proof -
  have u: "ulp r = 2 powi (e - 52)" by (simp add: ulp_def e)
  note E = expo_bounds [OF r]
  have "r < 2 powi (e + 1)"
    using E powi2_mono [of "expo r + 1" "e + 1"] e by (simp add: max_def split: if_splits)
  then have "r / ulp r \<le> 2 powi (e + 1) / 2 powi (e - 52)"
    unfolding u by (intro divide_right_mono) (simp_all add: less_imp_le)
  also have "\<dots> = 2 powi 53"
    by (simp only: powi2_split53) simp
  also have "\<dots> = of_int (2 ^ 53)" by simp
  finally have "round_half_even (r / ulp r) \<le> 2 ^ 53" by (rule rhe_le)
  then have "(of_int (round_half_even (r / ulp r)) :: rat) \<le> of_int (2 ^ 53)"
    by (simp only: of_int_le_iff)
  then have "round_mag r \<le> of_int (2 ^ 53) * ulp r"
    unfolding round_mag_def by (intro mult_right_mono) (auto simp: less_imp_le)
  also have "\<dots> = 2 powi 53 * 2 powi (e - 52)" unfolding u by simp
  also have "\<dots> = 2 powi (e + 1)" by (simp only: powi2_split53)
  finally show "round_mag r \<le> 2 powi (e + 1)" .
next
  assume "- 1022 \<le> expo r"
  then have ee: "e = expo r" using e by auto
  have u: "ulp r = 2 powi (e - 52)" by (simp add: ulp_def e)
  note E = expo_bounds [OF r]
  have "2 powi e / 2 powi (e - 52) \<le> r / ulp r"
    unfolding u using E ee by (intro divide_right_mono) (simp_all add: less_imp_le)
  moreover have "2 powi e / 2 powi (e - 52) = (2::rat) powi 52"
    by (subst powi2_split52) simp
  moreover have "(2::rat) powi 52 = of_int (2 ^ 52)" by simp
  ultimately have "of_int (2 ^ 52) \<le> r / ulp r" by simp
  then have "2 ^ 52 \<le> round_half_even (r / ulp r)" by (rule rhe_ge)
  then have "(of_int (2 ^ 52) :: rat) \<le> of_int (round_half_even (r / ulp r))"
    by (simp only: of_int_le_iff)
  then have "of_int (2 ^ 52) * ulp r \<le> round_mag r"
    unfolding round_mag_def by (intro mult_right_mono) (auto simp: less_imp_le)
  moreover have "of_int (2 ^ 52) * ulp r = 2 powi 52 * 2 powi (e - 52)" unfolding u by simp
  moreover have "\<dots> = 2 powi e" by (simp only: powi2_split52 [symmetric])
  ultimately show "2 powi e \<le> round_mag r" by simp
qed

lemma expo_mono:
  assumes "0 < r" "r \<le> s"
  shows "expo r \<le> expo s"
proof (rule ccontr)
  assume "\<not> expo r \<le> expo s"
  then have "expo s + 1 \<le> expo r" by simp
  then have "(2::rat) powi (expo s + 1) \<le> 2 powi expo r" by (rule powi2_mono)
  moreover have "0 < s" using assms by simp
  ultimately show False
    using expo_bounds [OF assms(1)] expo_bounds [OF \<open>0 < s\<close>] assms(2) by linarith
qed

lemma round_mag_mono:
  assumes "0 < r" "r \<le> s"
  shows "round_mag r \<le> round_mag s"
proof -
  have s: "0 < s" using assms by simp
  define er where "er = max (expo r) (- 1022)"
  define es where "es = max (expo s) (- 1022)"
  have le: "er \<le> es" using expo_mono [OF assms] by (simp add: er_def es_def)
  show ?thesis
  proof (cases "er = es")
    case True
    then have u: "ulp r = ulp s" by (simp add: ulp_def er_def es_def)
    have "r / ulp s \<le> s / ulp s"
      using assms(2) by (intro divide_right_mono) (simp_all add: less_imp_le)
    then have "round_half_even (r / ulp s) \<le> round_half_even (s / ulp s)" by (rule rhe_mono)
    then have "(of_int (round_half_even (r / ulp s)) :: rat) \<le> of_int (round_half_even (s / ulp s))"
      by (simp only: of_int_le_iff)
    then show ?thesis unfolding round_mag_def u
      by (intro mult_right_mono) (simp_all add: less_imp_le)
  next
    case False
    then have lt: "er + 1 \<le> es" using le by simp
    then have "- 1022 \<le> expo s" by (auto simp: er_def es_def max_def split: if_splits)
    then have "2 powi es \<le> round_mag s"
      using round_mag_bounds(2) [OF s es_def] by simp
    moreover have "round_mag r \<le> 2 powi (er + 1)"
      using round_mag_bounds(1) [OF assms(1) er_def] .
    moreover have "(2::rat) powi (er + 1) \<le> 2 powi es" using lt by (rule powi2_mono)
    ultimately show ?thesis by linarith
  qed
qed

lemma round_mag_nonneg: "0 \<le> r \<Longrightarrow> 0 \<le> round_mag r"
proof -
  assume "0 \<le> r"
  then have "0 \<le> r / ulp r" by (simp add: less_imp_le)
  then have "0 \<le> round_half_even (r / ulp r)" using rhe_ge [of 0 "r / ulp r"] by simp
  then show ?thesis by (simp add: round_mag_def less_imp_le)
qed

lemma round_mag_eqI:
  assumes "2 powi e \<le> r" "r < 2 powi (e + 1)" "- 1022 \<le> e"
    and "\<bar>r / 2 powi (e - 52) - of_int k\<bar> < 1 / 2"
  shows "round_mag r = of_int k * 2 powi (e - 52)"
proof -
  have "expo r = e" using assms(1,2) by (rule expo_unique)
  then have u: "ulp r = 2 powi (e - 52)" using assms(3) by (simp add: ulp_def max_def)
  show ?thesis unfolding round_mag_def u using assms(4) by (simp add: rhe_eqI)
qed

lemma round_mag_subnormal_eqI:
  assumes "0 < r" "r < 2 powi (- 1022)"
    and "\<bar>r / 2 powi (- 1074) - of_int k\<bar> < 1 / 2"
  shows "round_mag r = of_int k * 2 powi (- 1074)"
proof -
  have "expo r < - 1022"
    using expo_bounds [OF assms(1)] assms(2) powi2_less_imp [of "expo r" "- 1022"] by linarith
  then have u: "ulp r = 2 powi (- 1074)" by (simp add: ulp_def max_def)
  show ?thesis unfolding round_mag_def u using assms(3) by (simp add: rhe_eqI)
qed

text \<open>Evaluation of a rounding, given the exponent and the significand.\<close>

lemma rnd_pos_eqI:
  assumes "2 powi e \<le> r" "r < 2 powi (e + 1)" "- 1022 \<le> e" "e < 1024"
    and "\<bar>r / 2 powi (e - 52) - of_int k\<bar> < 1 / 2" "k < 2 ^ 53"
  shows "rnd r = Fin (of_int k * 2 powi (e - 52))"
proof -
  have m: "round_mag r = of_int k * 2 powi (e - 52)"
    using assms(1,2,3,5) by (rule round_mag_eqI)
  have r: "0 < r" using assms(1) by (smt (verit) zero_less_power_int zero_less_numeral order_less_le_trans)
  have "2 powi e \<le> round_mag r"
    using round_mag_bounds(2) [OF r refl] expo_unique [OF assms(1,2)] assms(3) by (simp add: max_def)
  then have pos: "0 < round_mag r" by (smt (verit) zero_less_power_int zero_less_numeral order_less_le_trans)
  have "(of_int k :: rat) < of_int (2 ^ 53)" using assms(6) by (simp only: of_int_less_iff)
  then have "of_int k * 2 powi (e - 52) < of_int (2 ^ 53) * (2::rat) powi (e - 52)"
    by (intro mult_strict_right_mono) simp_all
  also have "\<dots> = 2 powi (e + 1)" by (simp add: powi2_split53 [of e])
  also have "\<dots> \<le> 2 powi 1024" using assms(4) by (intro powi2_mono) simp
  finally have "round_mag r < overflow_threshold" unfolding m overflow_threshold_def .
  then show ?thesis using r pos by (simp add: rnd_def Let_def m [symmetric])
qed

lemma rnd_neg: "q \<noteq> 0 \<Longrightarrow> rnd (- q) = js_neg (rnd q)"
  by (auto simp: rnd_def Let_def signed_inf_def signed_zero_def)

lemma rnd_not_NaN [simp]: "rnd q \<noteq> NaN"
  by (simp add: rnd_def Let_def signed_inf_def signed_zero_def)

subsection \<open>Evaluation of the formatting\<close>

lemma hundredths_eqI:
  assumes "of_nat n \<le> a * 100 + 1 / 2" "a * 100 + 1 / 2 < of_nat n + 1"
  shows "hundredths a = n"
proof -
  have "\<lfloor>a * 100 + 1 / 2\<rfloor> = int n"
    by (rule floor_unique) (use assms in simp_all)
  then show ?thesis by (simp add: hundredths_def)
qed

subsection \<open>Rounding preserves the order\<close>

lemma overflow_threshold_pos [simp]:
  "0 < overflow_threshold" "1 < overflow_threshold" "0 \<le> overflow_threshold"
  "\<not> overflow_threshold \<le> 0"
proof -
  have "(2::rat) powi 1 \<le> 2 powi 1024" by (rule powi2_mono) simp
  then show "1 < overflow_threshold" by (simp add: overflow_threshold_def del: power_int_numeral)
  then show "0 < overflow_threshold" "0 \<le> overflow_threshold" "\<not> overflow_threshold \<le> 0"
    by simp_all
qed

lemma js_le_ext: "bounded x \<Longrightarrow> bounded y \<Longrightarrow> js_le x y = (ext x \<le> ext y)"
  by (cases x; cases y) (auto simp: js_le_def ext_def bounded_def)

lemma capped_nonneg: "0 \<le> min (round_mag \<bar>q\<bar>) overflow_threshold"
  using round_mag_nonneg [of "\<bar>q\<bar>"] by simp

lemma rounded_cases:
  "q = 0 \<Longrightarrow> rounded q = 0"
  "0 < q \<Longrightarrow> rounded q = min (round_mag q) overflow_threshold"
  "q < 0 \<Longrightarrow> rounded q = - min (round_mag (- q)) overflow_threshold"
  by (simp_all add: rounded_def)

lemma ext_rnd: "ext (rnd q) = rounded q"
proof -
  consider "q = 0" | "0 < q" | "q < 0" by linarith
  then show ?thesis
  proof cases
    case 1
    then show ?thesis by (simp add: rnd_def rounded_def ext_def)
  next
    case 2
    then show ?thesis
      by (auto simp: rnd_def rounded_cases ext_def Let_def signed_inf_def signed_zero_def min_def)
  next
    case 3
    then show ?thesis
      by (auto simp: rnd_def rounded_cases ext_def Let_def signed_inf_def signed_zero_def min_def)
  qed
qed

lemma bounded_rnd [simp]: "bounded (rnd q)"
  using round_mag_nonneg [of "\<bar>q\<bar>"]
  by (auto simp: rnd_def bounded_def Let_def signed_inf_def signed_zero_def)

lemma rounded_sign: "0 \<le> q \<Longrightarrow> 0 \<le> rounded q" "q \<le> 0 \<Longrightarrow> rounded q \<le> 0"
  using capped_nonneg [of q]
  by (auto simp: rounded_def sgn_if mult_le_0_iff zero_le_mult_iff)

lemma rounded_bound: "\<bar>rounded q\<bar> \<le> overflow_threshold"
  using capped_nonneg [of q] by (auto simp: rounded_def abs_mult sgn_if)

lemma rounded_mono:
  assumes "q1 \<le> q2"
  shows "rounded q1 \<le> rounded q2"
proof -
  consider "q1 \<le> 0" "0 \<le> q2" | "0 < q1" | "q2 < 0" by linarith
  then show ?thesis
  proof cases
    case 1
    then show ?thesis using rounded_sign(2) [of q1] rounded_sign(1) [of q2] by linarith
  next
    case 2
    then have "round_mag q1 \<le> round_mag q2" using assms by (rule round_mag_mono)
    then show ?thesis using 2 assms by (simp add: rounded_cases min_def)
  next
    case 3
    then have "round_mag (- q2) \<le> round_mag (- q1)"
      using assms by (intro round_mag_mono) simp_all
    then show ?thesis using 3 assms by (simp add: rounded_cases min_def)
  qed
qed

lemma div_pos_cases:
  assumes "0 < b"
  shows "js_div PInf (Fin b) = PInf" "js_div NInf (Fin b) = NInf"
    "js_div NZero (Fin b) = NZero"
    "js_div (Fin a) (Fin b) = (if a = 0 then Fin 0 else rnd (a / b))"
  using assms by (simp_all add: js_div_def signed_inf_def signed_zero_def)

lemma mul100_cases:
  "js_mul (Fin 100) PInf = PInf" "js_mul (Fin 100) NInf = NInf"
  "js_mul (Fin 100) NZero = NZero"
  "js_mul (Fin 100) (Fin a) = (if a = 0 then Fin 0 else rnd (100 * a))"
  by (simp_all add: js_mul_def signed_inf_def signed_zero_def)

lemma rounded_0 [simp]: "rounded 0 = 0"
  by (simp add: rounded_def)

lemma bounded_simps [simp]:
  "bounded PInf" "bounded NInf" "bounded NZero" "bounded (Fin 0)" "bounded (Fin 1)"
  "\<not> bounded NaN"
  by (simp_all add: bounded_def)

lemma div_ext:
  assumes "x \<noteq> NaN" "0 < b"
  shows "bounded (js_div x (Fin b))"
    and "ext (js_div x (Fin b)) = lift (\<lambda>a. a / b) x"
proof -
  show "bounded (js_div x (Fin b))"
    using assms by (cases x) (simp_all add: div_pos_cases)
  show "ext (js_div x (Fin b)) = lift (\<lambda>a. a / b) x"
    using assms by (cases x) (simp_all add: div_pos_cases lift_def ext_rnd, simp_all add: ext_def)
qed

lemma mul100_ext:
  assumes "x \<noteq> NaN"
  shows "bounded (js_mul (Fin 100) x)"
    and "ext (js_mul (Fin 100) x) = lift (\<lambda>a. 100 * a) x"
proof -
  show "bounded (js_mul (Fin 100) x)"
    using assms by (cases x) (simp_all add: mul100_cases)
  show "ext (js_mul (Fin 100) x) = lift (\<lambda>a. 100 * a) x"
    using assms by (cases x) (simp_all add: mul100_cases lift_def ext_rnd, simp_all add: ext_def)
qed

lemma lift_mono:
  assumes "js_le x1 x2" and f: "\<And>a b. a \<le> b \<Longrightarrow> f a \<le> f b"
  shows "lift f x1 \<le> lift f x2"
proof -
  have b: "- overflow_threshold \<le> rounded q" "rounded q \<le> overflow_threshold" for q
    using rounded_bound [of q] by (simp_all add: abs_le_iff)
  show ?thesis
  proof (cases "is_finite x1 \<and> is_finite x2")
    case True
    then have "val x1 \<le> val x2" using assms(1) by (cases x1; cases x2) (simp_all add: js_le_def)
    then have "rounded (f (val x1)) \<le> rounded (f (val x2))" by (intro rounded_mono f)
    then show ?thesis using True by (cases x1; cases x2) (simp_all add: lift_def)
  next
    case False
    then show ?thesis
      using assms(1) b by (cases x1; cases x2) (simp_all add: js_le_def lift_def)
  qed
qed

lemma div_mono:
  assumes "js_le x1 x2" "0 < b"
  shows "js_le (js_div x1 (Fin b)) (js_div x2 (Fin b))"
proof -
  have n: "x1 \<noteq> NaN" "x2 \<noteq> NaN" using assms(1) by (auto simp: js_le_def)
  have "lift (\<lambda>a. a / b) x1 \<le> lift (\<lambda>a. a / b) x2"
    using assms(1) by (rule lift_mono) (use assms(2) in \<open>simp add: divide_right_mono\<close>)
  then show ?thesis
    using div_ext [OF n(1) assms(2)] div_ext [OF n(2) assms(2)] by (simp add: js_le_ext)
qed

lemma mul100_mono:
  assumes "js_le x1 x2"
  shows "js_le (js_mul (Fin 100) x1) (js_mul (Fin 100) x2)"
proof -
  have n: "x1 \<noteq> NaN" "x2 \<noteq> NaN" using assms(1) by (auto simp: js_le_def)
  have "lift (\<lambda>a. 100 * a) x1 \<le> lift (\<lambda>a. 100 * a) x2"
    using assms(1) by (rule lift_mono) simp
  then show ?thesis
    using mul100_ext [OF n(1)] mul100_ext [OF n(2)] by (simp add: js_le_ext)
qed

lemma min1_cases:
  "Math_min (Fin 1) PInf = Fin 1" "Math_min (Fin 1) NInf = NInf"
  "Math_min (Fin 1) NZero = NZero"
  "Math_min (Fin 1) (Fin a) = (if a < 1 then Fin a else Fin 1)"
  "Math_min (Fin 1) NaN = NaN"
  by (auto simp: Math_min_def)

lemma min1_mono:
  assumes "js_le x1 x2"
  shows "js_le (Math_min (Fin 1) x1) (Math_min (Fin 1) x2)"
  using assms by (cases x1; cases x2) (simp_all add: min1_cases js_le_def)

lemma percent_mono:
  assumes "js_le c1 c2" "0 < T"
  shows "js_le (percent c1 (Fin T)) (percent c2 (Fin T))"
  unfolding percent_def by (intro min1_mono div_mono assms)

lemma percentage_mono:
  assumes "js_le c1 c2" "0 < T"
  shows "js_le (numeric_value (percentage c1 (Fin T))) (numeric_value (percentage c2 (Fin T)))"
  unfolding percentage_def numeric_value.simps by (intro mul100_mono percent_mono assms)

subsection \<open>Exactly representable results\<close>

lemma rnd_exact:
  assumes k: "0 < k" "k < 2 ^ 53" and j: "- 1074 \<le> j"
    and o: "of_int k * 2 powi j < overflow_threshold"
  shows "rnd (of_int k * 2 powi j) = Fin (of_int k * 2 powi j)"
proof -
  define r :: rat where "r = of_int k * 2 powi j"
  have r: "0 < r" using k(1) by (simp add: r_def)
  have "(of_int k :: rat) < of_int (2 ^ 53)" using k(2) by (simp only: of_int_less_iff)
  then have "r < of_int (2 ^ 53) * 2 powi j"
    unfolding r_def by (intro mult_strict_right_mono) simp_all
  also have "of_int (2 ^ 53) * (2::rat) powi j = 2 powi (53 + j)"
    by (simp add: powi2_add [of 53 j])
  finally have "(2::rat) powi expo r < 2 powi (53 + j)" using expo_bounds [OF r] by linarith
  then have e: "expo r < 53 + j" by (rule powi2_less_imp)
  define s where "s = j - (max (expo r) (- 1022) - 52)"
  have s: "0 \<le> s" using e j by (simp add: s_def)
  have u: "ulp r = 2 powi (j - s)" by (simp add: ulp_def s_def)
  have "r / ulp r = r / 2 powi (j - s)" by (simp only: u)
  also have "\<dots> = of_int k * (2 powi j / 2 powi (j - s))" by (simp add: r_def)
  also have "2 powi j / 2 powi (j - s) = (2::rat) powi s"
    using powi2_diff [of j "j - s"] by simp
  also have "(2::rat) powi s = of_int (2 ^ nat s)" using s by (simp add: power_int_def)
  finally have "r / ulp r = of_int (k * 2 ^ nat s)" by simp
  then have "round_half_even (r / ulp r) = k * 2 ^ nat s" by (simp only: rhe_of_int)
  then have "round_mag r = of_int k * (of_int (2 ^ nat s) * ulp r)"
    by (simp add: round_mag_def)
  also have "of_int (2 ^ nat s) * ulp r = (2::rat) powi s * 2 powi (j - s)"
    using s by (simp add: power_int_def u)
  also have "\<dots> = 2 powi j" using powi2_add [of s "j - s"] by simp
  finally have m: "round_mag r = r" by (simp add: r_def)
  show ?thesis using r o m by (simp add: rnd_def Let_def r_def [symmetric])
qed

lemma overflow_large: "2 ^ 53 < overflow_threshold"
  by (simp add: overflow_threshold_def)

lemma rnd_int:
  assumes "\<bar>n\<bar> < 2 ^ 53"
  shows "rnd (of_int n) = Fin (of_int n)"
proof -
  have pos: "rnd (of_int m) = Fin (of_int m)" if "0 < m" "m < 2 ^ 53" for m
  proof -
    have "(of_int m :: rat) < of_int (2 ^ 53)" using that(2) by (simp only: of_int_less_iff)
    then have "of_int m * 2 powi 0 < overflow_threshold" using overflow_large by simp
    then show ?thesis using rnd_exact [OF that, of 0] by simp
  qed
  consider "n = 0" | "0 < n" | "n < 0" by linarith
  then show ?thesis
  proof cases
    case 1
    then show ?thesis by (simp add: rnd_def)
  next
    case 2
    then show ?thesis using pos [of n] assms by simp
  next
    case 3
    then have "rnd (of_int (- n)) = Fin (of_int (- n))" using pos [of "- n"] assms by simp
    moreover have "rnd (- of_int (- n)) = js_neg (rnd (of_int (- n)))"
      using 3 by (intro rnd_neg) simp
    ultimately show ?thesis using 3 by simp
  qed
qed

lemma js_sub_Fin: "js_sub (Fin a) (Fin b) = rnd (a - b)"
  by (simp add: js_sub_def)

lemma rnd_numeral [simp]:
  "numeral n < (2 ^ 53 :: int) \<Longrightarrow> rnd (numeral n) = Fin (numeral n)"
  using rnd_int [of "numeral n"] by simp

lemma rnd_zero [simp]: "rnd 0 = Fin 0"
  by (simp add: rnd_def)

lemma rnd_one [simp]: "rnd 1 = Fin 1"
  using rnd_int [of 1] by simp

subsection \<open>Results that are not NaN\<close>

lemma js_neg_finite: "is_finite x \<Longrightarrow> is_finite (js_neg x)"
  by (cases x) simp_all

lemma js_add_not_NaN: "is_finite x \<Longrightarrow> is_finite y \<Longrightarrow> js_add x y \<noteq> NaN"
  by (cases x; cases y) simp_all

lemma js_sub_not_NaN: "is_finite x \<Longrightarrow> is_finite y \<Longrightarrow> js_sub x y \<noteq> NaN"
  by (simp add: js_sub_def js_add_not_NaN js_neg_finite)

lemma signed_not_NaN [simp]: "signed_inf b \<noteq> NaN" "signed_zero b \<noteq> NaN"
  by (simp_all add: signed_inf_def signed_zero_def)

lemma js_div_not_NaN:
  "x \<noteq> NaN \<Longrightarrow> is_finite y \<Longrightarrow> val y \<noteq> 0 \<Longrightarrow> js_div x y \<noteq> NaN"
  by (cases y) (simp_all add: js_div_def)

lemma rnd_quarter: "rnd (1 / 4) = Fin (1 / 4)"
  using rnd_exact [of 1 "- 2"] overflow_large by simp

lemma rnd_half: "rnd (1 / 2) = Fin (1 / 2)"
  using rnd_exact [of 1 "- 1"] overflow_large by simp

subsection \<open>The error of a rounding\<close>

lemma round_mag_of_rnd:
  assumes "0 < r" "rnd r = Fin r"
  shows "round_mag r = r"
  using assms
  by (auto simp: rnd_def Let_def signed_inf_def signed_zero_def split: if_splits)

lemma round_mag_one: "round_mag 1 = 1"
  by (rule round_mag_of_rnd) simp_all

lemma round_mag_hundred: "round_mag 100 = 100"
  by (rule round_mag_of_rnd) simp_all

lemma round_mag_zero: "round_mag 0 = 0"
  using rhe_of_int [of 0] by (simp add: round_mag_def)

lemma rnd_near:
  assumes x: "0 \<le> x" "x < 2 powi (e + 1)" and e: "- 1022 \<le> e" "e < 1023"
  shows "rnd x = Fin (round_mag x) \<and> \<bar>round_mag x - x\<bar> \<le> 2 powi (e - 53) \<and> 0 \<le> round_mag x"
proof (cases "x = 0")
  case True
  then show ?thesis by (simp add: round_mag_zero)
next
  case False
  then have pos: "0 < x" using x(1) by simp
  have "(2::rat) powi expo x < 2 powi (e + 1)" using expo_bounds [OF pos] x(2) by linarith
  then have "expo x < e + 1" by (rule powi2_less_imp)
  then have "max (expo x) (- 1022) - 52 \<le> e - 52" using e(1) by simp
  then have u: "ulp x \<le> 2 powi (e - 52)" unfolding ulp_def by (rule powi2_mono)
  have "(2::rat) powi ((e - 53) + 1) = 2 powi (e - 53) * 2 powi 1" by (rule powi2_add)
  moreover have "(e - 53) + 1 = e - 52" by simp
  ultimately have "(2::rat) powi (e - 52) = 2 powi (e - 53) * 2" by simp
  then have h: "(2::rat) powi (e - 52) / 2 = 2 powi (e - 53)" by linarith
  have err: "\<bar>round_mag x - x\<bar> \<le> 2 powi (e - 53)"
    using round_mag_err [of x] u h by linarith
  have nn: "0 \<le> round_mag x" using x(1) by (rule round_mag_nonneg)
  have "(2::rat) powi (e - 53) \<le> 2 powi (e + 1)" by (rule powi2_mono) simp
  then have "round_mag x < 2 powi (e + 1) + 2 powi (e + 1)" using err x(2) by linarith
  also have "(2::rat) powi (e + 1) + 2 powi (e + 1) = 2 powi (e + 2)"
  proof -
    have "(2::rat) powi ((e + 1) + 1) = 2 powi (e + 1) * 2 powi 1" by (rule powi2_add)
    moreover have "(e + 1) + 1 = e + 2" by simp
    ultimately have "(2::rat) powi (e + 2) = 2 powi (e + 1) * 2" by simp
    then show ?thesis by linarith
  qed
  also have "(2::rat) powi (e + 2) \<le> 2 powi 1024" using e(2) by (intro powi2_mono) simp
  finally have "round_mag x < overflow_threshold" by (simp only: overflow_threshold_def)
  then have "rnd x = Fin (round_mag x)"
    using pos by (simp add: rnd_def Let_def signed_zero_def)
  then show ?thesis using err nn by simp
qed

lemma round_mag_le:
  assumes "0 \<le> x" "x \<le> b" "round_mag b = b"
  shows "round_mag x \<le> b"
proof (cases "x = 0")
  case True
  then show ?thesis using assms by (simp add: round_mag_zero)
next
  case False
  then have "round_mag x \<le> round_mag b" using assms(1,2) by (intro round_mag_mono) simp_all
  then show ?thesis using assms(3) by simp
qed

section \<open>Properties of the controller\<close>

subsection \<open>What a call on the replayer leaves unchanged\<close>

lemma stopTimer_fields [simp]:
  "calls (stopTimer w) = calls w" "currentTime (stopTimer w) = currentTime w"
  "playerState (stopTimer w) = playerState w" "engine_state (stopTimer w) = engine_state w"
  "finished (stopTimer w) = finished w" "speedState (stopTimer w) = speedState w"
  "totalTime (stopTimer w) = totalTime w"
  by (simp_all add: stopTimer_def cancelAnimationFrame_def split: option.splits)

lemma loopTimer_fields [simp]:
  "calls (loopTimer w) = calls w" "currentTime (loopTimer w) = currentTime w"
  "playerState (loopTimer w) = playerState w" "engine_state (loopTimer w) = engine_state w"
  "finished (loopTimer w) = finished w" "speedState (loopTimer w) = speedState w"
  "totalTime (loopTimer w) = totalTime w"
  by (simp_all add: loopTimer_def requestAnimationFrame_def Let_def)

lemma handle_event_fields [simp]:
  "calls (handle_event ev w) = calls w" "currentTime (handle_event ev w) = currentTime w"
  "engine_state (handle_event ev w) = engine_state w"
  "totalTime (handle_event ev w) = totalTime w"
  by (cases ev; simp add: Let_def split: option.splits PlayerState.splits)+

lemma emit_fields [simp]:
  "calls (emit ev w) = calls w" "currentTime (emit ev w) = currentTime w"
  "totalTime (emit ev w) = totalTime w"
  by (cases "(ev, w)" rule: emit.cases; simp del: handle_event.simps)+

lemma fold_emit_fields [simp]:
  "calls (fold emit evs w) = calls w" "currentTime (fold emit evs w) = currentTime w"
  "totalTime (fold emit evs w) = totalTime w"
  by (induction evs arbitrary: w; simp)+

lemma replayer_call_fields [simp]:
  "calls (replayer_call E c w) = calls w @ [c]"
  "currentTime (replayer_call E c w) = currentTime w"
  "totalTime (replayer_call E c w) = totalTime w"
  by (simp_all add: replayer_call_def)

lemma handle_event_playerState:
  "playerState (handle_event (StateChange (Some p) spd) w) = p"
  by (simp add: Let_def split: option.splits PlayerState.splits)

lemma handle_event_playerState_other:
  "playerState (handle_event (StateChange None spd) w) = playerState w"
  "playerState (handle_event Finish w) = playerState w"
  by (simp_all add: Let_def split: option.splits)

lemma emit_sync:
  assumes "playerState w = engine_state w"
  shows "playerState (emit ev w) = engine_state (emit ev w)"
    and "engine_state (emit ev w) = announced [ev] (engine_state w)"
  using assms
  by (cases "(ev, w)" rule: emit.cases;
      simp add: handle_event_playerState handle_event_playerState_other del: handle_event.simps)+

lemma announced_Cons: "announced (ev # evs) s = announced evs (announced [ev] s)"
  by (cases "(ev # evs, s)" rule: announced.cases) simp_all

lemma fold_emit_sync:
  assumes "playerState w = engine_state w"
  shows "playerState (fold emit evs w) = engine_state (fold emit evs w) \<and>
         engine_state (fold emit evs w) = announced evs (engine_state w)"
  using assms
proof (induction evs arbitrary: w)
  case Nil
  then show ?case by simp
next
  case (Cons ev evs)
  note s = emit_sync [OF Cons.prems]
  show ?case using Cons.IH [OF s(1)] s(2) announced_Cons [of ev evs] by simp
qed

lemma replayer_call_sync:
  assumes "playerState w = engine_state w"
  shows "playerState (replayer_call E c w) = engine_state (replayer_call E c w)"
    and "engine_state (replayer_call E c w) = announced (E c (engine_state w)) (engine_state w)"
  using fold_emit_sync [of "w\<lparr>calls := calls w @ [c]\<rparr>" "E c (engine_state w)"] assms
  by (simp_all add: replayer_call_def)

subsection \<open>The operations\<close>

lemma goto_calls:
  "calls (goto E t w) =
     calls w @ [Pause, Play (Some t)] @ (if playerState w = Playing then [] else [Pause])"
  by (simp add: goto_def Let_def)

lemma goto_currentTime: "currentTime (goto E t w) = t"
  by (simp add: goto_def Let_def)

lemma goto_state:
  assumes "player_machine E" "playerState w = engine_state w"
  shows "playerState (goto E t w) = playerState w \<and> engine_state (goto E t w) = engine_state w"
proof -
  define w0 where "w0 = w\<lparr>currentTime := t\<rparr>"
  define w1 where "w1 = replayer_call E Pause w0"
  define w2 where "w2 = replayer_call E (Play (Some t)) w1"
  define w3 where "w3 = replayer_call E Pause w2"
  have s0: "playerState w0 = engine_state w0" "engine_state w0 = engine_state w"
    using assms(2) by (simp_all add: w0_def)
  note s1 = replayer_call_sync [OF s0(1), of E Pause, folded w1_def]
  note s2 = replayer_call_sync [OF s1(1), of E "Play (Some t)", folded w2_def]
  note s3 = replayer_call_sync [OF s2(1), of E Pause, folded w3_def]
  have g: "goto E t w = (if playerState w \<noteq> Playing then w3 else w2)"
    by (simp add: goto_def Let_def w0_def w1_def w2_def w3_def)
  show ?thesis
  proof (cases "engine_state w")
    case Playing
    then have "engine_state w1 = Paused" using s1(2) s0 assms(1) by (simp add: player_machine_def)
    then have "engine_state w2 = Playing" using s2(2) assms(1) by (simp add: player_machine_def)
    then show ?thesis using g s2(1) Playing assms(2) by simp
  next
    case Paused
    then have "engine_state w1 = Paused" using s1(2) s0 assms(1) by (simp add: player_machine_def)
    then have "engine_state w2 = Playing" using s2(2) assms(1) by (simp add: player_machine_def)
    then have "engine_state w3 = Paused" using s3(2) assms(1) by (simp add: player_machine_def)
    then show ?thesis using g s3(1) Paused assms(2) by simp
  next
    case Live
    then have "engine_state w1 = Live" using s1(2) s0 assms(1) by (simp add: player_machine_def)
    then have "engine_state w2 = Live" using s2(2) assms(1) by (simp add: player_machine_def)
    then have "engine_state w3 = Live" using s3(2) assms(1) by (simp add: player_machine_def)
    then show ?thesis using g s3(1) Live assms(2) by simp
  qed
qed

subsection \<open>The timer loop is kept by every operation\<close>

lemma stopTimer_frames: "loop_ok w \<Longrightarrow> frames (stopTimer w) = {}"
  by (auto simp: loop_ok_def stopTimer_def cancelAnimationFrame_def split: option.splits)

lemma stopTimer_inv: "loop_ok w \<Longrightarrow> timer_inv (stopTimer w)"
  using stopTimer_frames [of w] by (simp add: timer_inv_def loop_ok_def)

lemma loopTimer_frames:
  "loop_ok w \<Longrightarrow> frames (loopTimer w) = {Suc (last_handle w)} \<and>
     timer (loopTimer w) = Some (Suc (last_handle w))"
  using stopTimer_frames [of w]
  by (auto simp: loopTimer_def requestAnimationFrame_def Let_def stopTimer_def
      cancelAnimationFrame_def split: option.splits)

lemma loopTimer_ok: "loop_ok w \<Longrightarrow> loop_ok (loopTimer w)"
  using loopTimer_frames [of w] by (simp add: loop_ok_def)

lemma loop_ok_upd [simp]:
  "loop_ok (w\<lparr>playerState := p\<rparr>) = loop_ok w"
  "loop_ok (w\<lparr>speedState := s\<rparr>) = loop_ok w"
  "loop_ok (w\<lparr>finished := b\<rparr>) = loop_ok w"
  "loop_ok (w\<lparr>engine_state := p\<rparr>) = loop_ok w"
  "loop_ok (w\<lparr>calls := cs\<rparr>) = loop_ok w"
  "loop_ok (w\<lparr>currentTime := t\<rparr>) = loop_ok w"
  "loop_ok (w\<lparr>speed := t\<rparr>) = loop_ok w"
  "loop_ok (w\<lparr>skipInactive := b\<rparr>) = loop_ok w"
  "loop_ok (w\<lparr>config_skipInactive := b\<rparr>) = loop_ok w"
  "loop_ok (w\<lparr>totalTime := t\<rparr>) = loop_ok w"
  "loop_ok (w\<lparr>last_handle := n\<rparr>) = loop_ok w"
  by (simp_all add: loop_ok_def)

lemma timer_inv_upd [simp]:
  "timer_inv (w\<lparr>speedState := s\<rparr>) = timer_inv w"
  "timer_inv (w\<lparr>finished := b\<rparr>) = timer_inv w"
  "timer_inv (w\<lparr>engine_state := p\<rparr>) = timer_inv w"
  "timer_inv (w\<lparr>calls := cs\<rparr>) = timer_inv w"
  "timer_inv (w\<lparr>currentTime := t\<rparr>) = timer_inv w"
  "timer_inv (w\<lparr>speed := t\<rparr>) = timer_inv w"
  "timer_inv (w\<lparr>skipInactive := b\<rparr>) = timer_inv w"
  "timer_inv (w\<lparr>config_skipInactive := b\<rparr>) = timer_inv w"
  "timer_inv (w\<lparr>totalTime := t\<rparr>) = timer_inv w"
  "timer_inv (w\<lparr>last_handle := n\<rparr>) = timer_inv w"
  by (simp_all add: timer_inv_def)

lemma player_change_inv:
  assumes "timer_inv w"
  shows "timer_inv (case p of Playing \<Rightarrow> loopTimer (w\<lparr>playerState := p\<rparr>)
                    | Paused \<Rightarrow> stopTimer (w\<lparr>playerState := p\<rparr>)
                    | Live \<Rightarrow> w\<lparr>playerState := p\<rparr>)"
proof (cases p)
  case Playing
  have "loop_ok (w\<lparr>playerState := Playing\<rparr>)" using assms by (simp add: timer_inv_def)
  then show ?thesis using Playing by (simp add: timer_inv_def loopTimer_ok)
next
  case Paused
  have "loop_ok (w\<lparr>playerState := Paused\<rparr>)" using assms by (simp add: timer_inv_def)
  then show ?thesis using Paused by (simp add: stopTimer_inv)
next
  case Live
  then show ?thesis using assms by (simp add: timer_inv_def loop_ok_def)
qed

lemma handle_event_inv:
  assumes i: "timer_inv w"
  shows "timer_inv (handle_event ev w)"
proof (cases ev)
  case (StateChange player spd)
  define w1 where "w1 = (case player of None \<Rightarrow> w
               | Some p \<Rightarrow>
                   if playerState w \<noteq> p then
                     (let w = w\<lparr>playerState := p\<rparr>
                      in case p of Playing \<Rightarrow> loopTimer w | Paused \<Rightarrow> stopTimer w | Live \<Rightarrow> w)
                   else w)"
  have h: "handle_event ev w =
      (case spd of None \<Rightarrow> w1 | Some v \<Rightarrow> if speedState w1 \<noteq> v then w1\<lparr>speedState := v\<rparr> else w1)"
    by (simp only: StateChange handle_event.simps Let_def w1_def)
  have 1: "timer_inv w1"
    unfolding w1_def using i player_change_inv [OF i] by (cases player) (simp_all add: Let_def)
  show ?thesis unfolding h using 1 by (cases spd) simp_all
next
  case Finish
  then show ?thesis using i by simp
qed

lemma emit_inv: "timer_inv w \<Longrightarrow> timer_inv (emit ev w)"
  by (cases "(ev, w)" rule: emit.cases) (simp_all add: handle_event_inv del: handle_event.simps)

lemma fold_emit_inv: "timer_inv w \<Longrightarrow> timer_inv (fold emit evs w)"
  by (induction evs arbitrary: w) (simp_all add: emit_inv)

lemma replayer_call_inv: "timer_inv w \<Longrightarrow> timer_inv (replayer_call E c w)"
  by (simp add: replayer_call_def fold_emit_inv)

lemma update_inv: "timer_inv w \<Longrightarrow> timer_inv (update h now w)"
  by (auto simp: update_def timer_inv_def loop_ok_def requestAnimationFrame_def Let_def)

lemma play_inv: "timer_inv w \<Longrightarrow> timer_inv (play E w)"
  by (simp add: play_def replayer_call_inv)

lemma pause_inv: "timer_inv w \<Longrightarrow> timer_inv (pause E w)"
  by (simp add: pause_def replayer_call_inv)

lemma toggle_inv: "timer_inv w \<Longrightarrow> timer_inv (toggle E w)"
  by (simp add: toggle_def play_inv pause_inv split: PlayerState.splits)

lemma goto_inv: "timer_inv w \<Longrightarrow> timer_inv (goto E t w)"
  by (simp add: goto_def Let_def replayer_call_inv)

lemma setSpeed_inv: "timer_inv w \<Longrightarrow> timer_inv (setSpeed E v w)"
  by (simp add: setSpeed_def Let_def replayer_call_inv)

lemma onDestroy_inv: "timer_inv w \<Longrightarrow> timer_inv (onDestroy E w)"
  unfolding onDestroy_def by (rule stopTimer_inv) (use replayer_call_inv [of w E Pause] in \<open>simp add: timer_inv_def\<close>)

lemma step_inv: "timer_inv w \<Longrightarrow> timer_inv (step E a w)"
  by (cases a)
    (simp_all add: toggle_inv play_inv pause_inv goto_inv setSpeed_inv onDestroy_inv
      update_inv emit_inv handleProgressClick_def Let_def toggleSkipInactive_def
      afterUpdate_def replayer_call_inv del: emit.simps)

lemma run_inv: "timer_inv w \<Longrightarrow> timer_inv (run E acts w)"
  unfolding run_def by (induction acts arbitrary: w) (simp_all add: step_inv)

lemma onMount_inv: "timer_inv (onMount E autoPlay ski sp tot p0 s0 c0 h0)"
proof -
  have "timer_inv \<lparr>currentTime = Fin 0, timer = None, playerState = p0,
                speedState = s0, finished = False, speed = sp,
                skipInactive = ski, totalTime = tot, engine_state = p0,
                config_skipInactive = c0, calls = [], frames = {},
                last_handle = h0\<rparr>"
    by (simp add: timer_inv_def loop_ok_def)
  then show ?thesis by (simp add: onMount_def Let_def replayer_call_inv)
qed

lemma stopTimer_idem: "stopTimer (stopTimer w) = stopTimer w"
  by (simp add: stopTimer_def cancelAnimationFrame_def split: option.splits)

lemma stopTimer_noop: "timer w = None \<Longrightarrow> stopTimer w = w"
  by (simp add: stopTimer_def)

subsection \<open>The finished flag\<close>

lemma handle_event_finished: "ev \<noteq> Finish \<Longrightarrow> finished (handle_event ev w) = finished w"
  by (cases ev) (simp_all add: Let_def split: option.splits PlayerState.splits)

lemma emit_finished: "ev \<noteq> Finish \<Longrightarrow> finished (emit ev w) = finished w"
proof (cases ev)
  case (StateChange player spd)
  then show ?thesis
    by (cases player) (simp_all add: handle_event_finished del: handle_event.simps)
next
  case Finish
  assume "ev \<noteq> Finish"
  then show ?thesis using Finish by simp
qed

lemma fold_emit_finished: "Finish \<notin> set evs \<Longrightarrow> finished (fold emit evs w) = finished w"
proof (induction evs arbitrary: w)
  case Nil
  then show ?case by simp
next
  case (Cons ev evs)
  then have "ev \<noteq> Finish" "Finish \<notin> set evs" by auto
  then show ?case using Cons.IH [of "emit ev w"] emit_finished [of ev w] by simp
qed

lemma replayer_call_finished:
  "never_finishes E \<Longrightarrow> finished (replayer_call E c w) = finished w"
  by (simp add: replayer_call_def never_finishes_def fold_emit_finished)

lemma update_finished: "finished (update h now w) = finished w"
  by (simp add: update_def requestAnimationFrame_def Let_def)

lemma play_unfinished: "never_finishes E \<Longrightarrow> \<not> finished w \<Longrightarrow> \<not> finished (play E w)"
  by (simp add: play_def replayer_call_finished)

lemma pause_unfinished: "never_finishes E \<Longrightarrow> \<not> finished w \<Longrightarrow> \<not> finished (pause E w)"
  by (simp add: pause_def replayer_call_finished)

lemma toggle_unfinished: "never_finishes E \<Longrightarrow> \<not> finished w \<Longrightarrow> \<not> finished (toggle E w)"
  by (cases "playerState w") (simp_all add: toggle_def play_unfinished pause_unfinished)

lemma goto_finished: "never_finishes E \<Longrightarrow> finished (goto E t w) = finished w"
  by (simp add: goto_def Let_def replayer_call_finished)

lemma handleProgressClick_finished:
  "never_finishes E \<Longrightarrow> finished (handleProgressClick E cx l wd w) = finished w"
  by (simp add: handleProgressClick_def Let_def goto_finished)

lemma setSpeed_finished: "never_finishes E \<Longrightarrow> finished (setSpeed E v w) = finished w"
  by (simp add: setSpeed_def Let_def replayer_call_finished)

lemma afterUpdate_finished: "never_finishes E \<Longrightarrow> finished (afterUpdate E w) = finished w"
  by (simp add: afterUpdate_def replayer_call_finished)

lemma onDestroy_finished: "never_finishes E \<Longrightarrow> finished (onDestroy E w) = finished w"
  by (simp add: onDestroy_def replayer_call_finished)

lemma step_unfinished:
  assumes "never_finishes E" "a \<noteq> Emitted Finish" "\<not> finished w"
  shows "\<not> finished (step E a w)"
proof (cases a)
  case Toggle
  then show ?thesis using assms by (simp add: toggle_unfinished)
next
  case DoPlay
  then show ?thesis using assms by (simp add: play_unfinished)
next
  case DoPause
  then show ?thesis using assms by (simp add: pause_unfinished)
next
  case (Goto t)
  then show ?thesis using assms by (simp add: goto_finished)
next
  case (ProgressClick cx l wd)
  then show ?thesis using assms by (simp add: handleProgressClick_finished)
next
  case (SetSpeed v)
  then show ?thesis using assms by (simp add: setSpeed_finished)
next
  case ToggleSkipInactive
  then show ?thesis using assms by (simp add: toggleSkipInactive_def)
next
  case AfterUpdate
  then show ?thesis using assms by (simp add: afterUpdate_finished)
next
  case (Emitted ev)
  then show ?thesis using assms by (simp add: emit_finished del: emit.simps)
next
  case (Frame h now)
  then show ?thesis using assms by (simp add: update_finished)
next
  case OtherFrameRequest
  then show ?thesis using assms by simp
next
  case (MetaChanged t)
  then show ?thesis using assms by simp
next
  case Destroy
  then show ?thesis using assms by (simp add: onDestroy_finished)
qed

lemma run_unfinished:
  assumes "never_finishes E" "Emitted Finish \<notin> set acts" "\<not> finished w"
  shows "\<not> finished (run E acts w)"
  using assms(2,3) unfolding run_def
proof (induction acts arbitrary: w)
  case Nil
  then show ?case by simp
next
  case (Cons a acts)
  have "\<not> finished (step E a w)" using step_unfinished [OF assms(1), of a w] Cons.prems by auto
  then show ?case using Cons.IH [of "step E a w"] Cons.prems by simp
qed

lemma handle_event_keeps_finished: "finished w \<Longrightarrow> finished (handle_event ev w)"
  by (cases ev) (simp_all add: Let_def split: option.splits PlayerState.splits)

lemma emit_keeps_finished: "finished w \<Longrightarrow> finished (emit ev w)"
proof (cases ev)
  case (StateChange player spd)
  assume "finished w"
  then show ?thesis unfolding StateChange
    by (cases player) (simp_all add: handle_event_keeps_finished del: handle_event.simps)
next
  case Finish
  then show ?thesis by simp
qed

lemma fold_emit_keeps_finished: "finished w \<Longrightarrow> finished (fold emit evs w)"
proof (induction evs arbitrary: w)
  case Nil
  then show ?case by simp
next
  case (Cons ev evs)
  then show ?case using Cons.IH [of "emit ev w"] emit_keeps_finished [of w ev] by simp
qed

lemma replayer_call_keeps_finished: "finished w \<Longrightarrow> finished (replayer_call E c w)"
  by (simp add: replayer_call_def fold_emit_keeps_finished)

lemma goto_keeps_finished: "finished w \<Longrightarrow> finished (goto E t w)"
  by (simp add: goto_def Let_def replayer_call_keeps_finished)

lemma step_keeps_finished:
  assumes "finished w" "a \<noteq> DoPlay" "a \<noteq> Toggle"
  shows "finished (step E a w)"
proof (cases a)
  case DoPause
  then show ?thesis using assms by (simp add: pause_def replayer_call_keeps_finished)
next
  case (Goto t)
  then show ?thesis using assms by (simp add: goto_keeps_finished)
next
  case (ProgressClick cx l wd)
  then show ?thesis
    using assms by (simp add: handleProgressClick_def Let_def goto_keeps_finished)
next
  case (SetSpeed v)
  then show ?thesis using assms by (simp add: setSpeed_def Let_def replayer_call_keeps_finished)
next
  case ToggleSkipInactive
  then show ?thesis using assms by (simp add: toggleSkipInactive_def)
next
  case AfterUpdate
  then show ?thesis using assms by (simp add: afterUpdate_def replayer_call_keeps_finished)
next
  case (Emitted ev)
  then show ?thesis using assms by (simp add: emit_keeps_finished del: emit.simps)
next
  case (Frame h now)
  then show ?thesis using assms by (simp add: update_finished)
next
  case OtherFrameRequest
  then show ?thesis using assms by simp
next
  case (MetaChanged t)
  then show ?thesis using assms by simp
next
  case Destroy
  then show ?thesis using assms by (simp add: onDestroy_def replayer_call_keeps_finished)
qed (use assms in simp_all)

subsection \<open>The controller's copy of the player state\<close>

lemma update_player [simp]:
  "playerState (update h now w) = playerState w" "engine_state (update h now w) = engine_state w"
  by (simp_all add: update_def requestAnimationFrame_def Let_def)

lemma replayer_call_in_step: "in_step w \<Longrightarrow> in_step (replayer_call E c w)"
  unfolding in_step_def by (rule replayer_call_sync(1))

lemma in_step_upd [simp]:
  "in_step (w\<lparr>finished := b\<rparr>) = in_step w"
  "in_step (w\<lparr>currentTime := t\<rparr>) = in_step w"
  "in_step (w\<lparr>speed := t\<rparr>) = in_step w"
  "in_step (w\<lparr>skipInactive := b\<rparr>) = in_step w"
  "in_step (w\<lparr>config_skipInactive := b\<rparr>) = in_step w"
  "in_step (w\<lparr>totalTime := t\<rparr>) = in_step w"
  "in_step (w\<lparr>last_handle := n\<rparr>) = in_step w"
  "in_step (w\<lparr>calls := cs\<rparr>) = in_step w"
  by (simp_all add: in_step_def)

lemma play_in_step: "in_step w \<Longrightarrow> in_step (play E w)"
  by (simp add: play_def replayer_call_in_step)

lemma pause_in_step: "in_step w \<Longrightarrow> in_step (pause E w)"
  by (simp add: pause_def replayer_call_in_step)

lemma toggle_in_step: "in_step w \<Longrightarrow> in_step (toggle E w)"
  by (cases "playerState w") (simp_all add: toggle_def play_in_step pause_in_step)

lemma goto_in_step: "in_step w \<Longrightarrow> in_step (goto E t w)"
  by (simp add: goto_def Let_def replayer_call_in_step)

lemma setSpeed_in_step: "in_step w \<Longrightarrow> in_step (setSpeed E v w)"
  by (simp add: setSpeed_def Let_def replayer_call_in_step)

lemma step_in_step:
  assumes "in_step w"
  shows "in_step (step E a w)"
proof (cases a)
  case Toggle
  then show ?thesis using assms by (simp add: toggle_in_step)
next
  case DoPlay
  then show ?thesis using assms by (simp add: play_in_step)
next
  case DoPause
  then show ?thesis using assms by (simp add: pause_in_step)
next
  case (Goto t)
  then show ?thesis using assms by (simp add: goto_in_step)
next
  case (ProgressClick cx l wd)
  then show ?thesis using assms by (simp add: handleProgressClick_def Let_def goto_in_step)
next
  case (SetSpeed v)
  then show ?thesis using assms by (simp add: setSpeed_in_step)
next
  case ToggleSkipInactive
  then show ?thesis using assms by (simp add: toggleSkipInactive_def)
next
  case AfterUpdate
  then show ?thesis using assms by (simp add: afterUpdate_def replayer_call_in_step)
next
  case (Emitted ev)
  then show ?thesis using assms emit_sync(1) [of w ev] by (simp add: in_step_def del: emit.simps)
next
  case (Frame h now)
  then show ?thesis using assms by (simp add: in_step_def)
next
  case OtherFrameRequest
  then show ?thesis using assms by simp
next
  case (MetaChanged t)
  then show ?thesis using assms by simp
next
  case Destroy
  then show ?thesis
    using assms replayer_call_in_step [of w E Pause] by (simp add: onDestroy_def in_step_def)
qed

lemma run_in_step: "in_step w \<Longrightarrow> in_step (run E acts w)"
  unfolding run_def by (induction acts arbitrary: w) (simp_all add: step_in_step)

lemma onMount_in_step: "in_step (onMount E autoPlay ski sp tot p0 s0 c0 h0)"
proof -
  have "in_step \<lparr>currentTime = Fin 0, timer = None, playerState = p0,
                speedState = s0, finished = False, speed = sp,
                skipInactive = ski, totalTime = tot, engine_state = p0,
                config_skipInactive = c0, calls = [], frames = {},
                last_handle = h0\<rparr>"
    by (simp add: in_step_def)
  then show ?thesis by (simp add: onMount_def Let_def replayer_call_in_step)
qed

text \<open>In every state the mounted component reaches, the copy is the replayer's state.\<close>

lemma reachable_in_step:
  "playerState (run E acts (onMount E autoPlay ski sp tot p0 s0 c0 h0)) =
     engine_state (run E acts (onMount E autoPlay ski sp tot p0 s0 c0 h0))"
  using run_in_step [OF onMount_in_step] by (simp add: in_step_def)

subsection \<open>The progress track\<close>

lemma clamp_percent_range:
  assumes "p \<noteq> NaN"
  shows "js_le (Fin 0) (clamp_percent p) \<and> js_le (clamp_percent p) (Fin 1)"
  using assms by (cases p) (simp_all add: clamp_percent_def js_le_def)

lemma clamp_percent_NaN: "clamp_percent NaN = NaN"
  by (simp add: clamp_percent_def)

lemma js_mul_NaN: "js_mul x NaN = NaN"
  by (simp add: js_mul_def)

lemma js_div_NaN_iff:
  assumes "is_finite y" and "x \<noteq> NaN"
  shows "(js_div x y = NaN) = (js_eq x (Fin 0) \<and> js_eq y (Fin 0))"
  using assms by (cases x; cases y) (auto simp: js_div_def js_eq_def)

section \<open>Properties of the marker computation\<close>

subsection \<open>Evaluation of the marker computation\<close>

lemma fixed2_values:
  "fixed2 0 = ''0.00''" "fixed2 3 = ''0.03''" "fixed2 4 = ''0.04''" "fixed2 10000 = ''100.00''"
  by (simp_all add: fixed2_def digits.simps)

lemma hundredths_values: "hundredths 0 = 0" "hundredths 100 = 10000"
  by (rule hundredths_eqI; simp)+

lemma collect_map:
  "collect big tags s e evs =
     map (\<lambda>ev. \<lparr>name = tag ev, background = tag_background tags (tag ev),
                position = tag_position big s e (timestamp ev) @ ''%''\<rparr>)
       (filter (\<lambda>ev. ev_type ev = Custom) evs)"
  by (induction evs) simp_all

lemma collect_position:
  "m \<in> set (collect big tags s e evs) \<Longrightarrow>
     \<exists>ev \<in> set evs. ev_type ev = Custom \<and>
       position m = tag_position big s e (timestamp ev) @ ''%''"
  by (induction evs) (auto split: if_splits)

lemma js_div_Fin: "a \<noteq> 0 \<Longrightarrow> b \<noteq> 0 \<Longrightarrow> js_div (Fin a) (Fin b) = rnd (a / b)"
  by (simp add: js_div_def)

lemma js_div_zero_Fin: "0 < b \<Longrightarrow> js_div (Fin 0) (Fin b) = Fin 0"
  by (simp add: js_div_def signed_zero_def)

lemma js_mul_Fin: "a \<noteq> 0 \<Longrightarrow> b \<noteq> 0 \<Longrightarrow> js_mul (Fin a) (Fin b) = rnd (a * b)"
  by (simp add: js_mul_def)

lemma js_mul_zero_Fin: "0 < b \<Longrightarrow> js_mul (Fin 0) (Fin b) = Fin 0"
  by (simp add: js_mul_def signed_zero_def)

lemma position_at_start:
  assumes "rnd (t1 - t0) = Fin d" "d \<noteq> 0"
  shows "tag_position big (Fin t0) (Fin t1) (Fin t0) = ''0.00''"
proof -
  have s: "js_sub (Fin t1) (Fin t0) = Fin d" using assms(1) by (simp add: js_sub_Fin)
  have q: "js_div (Fin d) (Fin d) = Fin 1" using assms(2) by (simp add: js_div_Fin)
  have m: "js_mul (Fin 1) (Fin 100) = Fin 100" by (simp add: js_mul_Fin)
  have r: "js_sub (Fin 100) (Fin 100) = Fin 0" by (simp add: js_sub_Fin)
  show ?thesis
    by (simp add: tag_position_def s q m r hundredths_values fixed2_values)
qed

lemma position_at_end:
  assumes "rnd (t1 - t0) = Fin d" "0 < d"
  shows "tag_position big (Fin t0) (Fin t1) (Fin t1) = ''100.00''"
proof -
  have s: "js_sub (Fin t1) (Fin t0) = Fin d" using assms(1) by (simp add: js_sub_Fin)
  have e: "js_sub (Fin t1) (Fin t1) = Fin 0" by (simp add: js_sub_Fin)
  have q: "js_div (Fin 0) (Fin d) = Fin 0" using assms(2) by (rule js_div_zero_Fin)
  have m: "js_mul (Fin 0) (Fin 100) = Fin 0" by (simp add: js_mul_zero_Fin)
  have r: "js_sub (Fin 100) (Fin 0) = Fin 100" by (simp add: js_sub_Fin)
  show ?thesis
    by (simp add: tag_position_def s e q m r hundredths_values fixed2_values)
qed

subsection \<open>Sessions of no duration\<close>

lemma js_eq_sub:
  assumes "js_eq x y"
  shows "js_sub x y = NaN \<or> js_sub x y = Fin 0 \<or> js_sub x y = NZero"
  using assms by (cases x; cases y) (auto simp: js_eq_def js_sub_def)

lemma div_by_zero_cases:
  assumes "d = NaN \<or> d = Fin 0 \<or> d = NZero"
  shows "js_div x d = NaN \<or> js_div x d = PInf \<or> js_div x d = NInf"
  using assms by (cases x) (auto simp: js_div_def signed_inf_def)

lemma zero_div_zero:
  assumes "d = NaN \<or> d = Fin 0 \<or> d = NZero" "x = NaN \<or> x = Fin 0 \<or> x = NZero"
  shows "js_div x d = NaN"
  using assms by (auto simp: js_div_def)

lemma position_of_inf:
  assumes "q = NaN \<or> q = PInf \<or> q = NInf"
  shows "toFixed2 big (js_sub (Fin 100) (js_mul q (Fin 100))) \<in> {''NaN'', ''Infinity'', ''-Infinity''}"
    and "q = NaN \<Longrightarrow> toFixed2 big (js_sub (Fin 100) (js_mul q (Fin 100))) = ''NaN''"
  using assms by (auto simp: js_mul_def js_sub_def signed_inf_def)

lemma zero_duration_position:
  assumes "js_eq s e"
  shows "tag_position big s e t \<in> {''NaN'', ''Infinity'', ''-Infinity''}"
    and "js_eq t e \<Longrightarrow> tag_position big s e t = ''NaN''"
proof -
  have d: "js_sub e s = NaN \<or> js_sub e s = Fin 0 \<or> js_sub e s = NZero"
    using assms js_eq_sub [of e s] by (auto simp: js_eq_def)
  show "tag_position big s e t \<in> {''NaN'', ''Infinity'', ''-Infinity''}"
    unfolding tag_position_def Let_def
    by (rule position_of_inf(1)) (rule div_by_zero_cases [OF d])
  assume "js_eq t e"
  then have "js_sub e t = NaN \<or> js_sub e t = Fin 0 \<or> js_sub e t = NZero"
    using js_eq_sub [of e t] by (auto simp: js_eq_def)
  then have "js_div (js_sub e t) (js_sub e s) = NaN" using d by (intro zero_div_zero)
  then show "tag_position big s e t = ''NaN''"
    unfolding tag_position_def Let_def by (intro position_of_inf(2)) simp_all
qed

subsection \<open>The error of the marker position\<close>

lemma hundredths_near:
  assumes "0 \<le> v" "v \<le> 100"
  shows "hundredths v \<le> 10000" and "\<bar>of_nat (hundredths v) / 100 - v\<bar> \<le> 1 / 200"
proof -
  define n where "n = \<lfloor>v * 100 + 1 / 2\<rfloor>"
  have n: "of_int n \<le> v * 100 + 1 / 2" "v * 100 + 1 / 2 < of_int n + 1"
    unfolding n_def by linarith+
  have "0 \<le> n" unfolding n_def using assms(1) by simp
  then have h: "hundredths v = nat n" "(of_nat (hundredths v) :: rat) = of_int n"
    by (simp_all add: hundredths_def n_def)
  have "of_int n \<le> (10000::rat) + 1 / 2" using n(1) assms(2) by linarith
  then have "n \<le> 10000" by linarith
  then show "hundredths v \<le> 10000" using h(1) by simp
  have "of_int n / 100 - v \<le> 1 / 200" "- (1 / 200) \<le> of_int n / 100 - v"
    using n by linarith+
  then show "\<bar>of_nat (hundredths v) / 100 - v\<bar> \<le> 1 / 200"
    unfolding h(2) by linarith
qed

lemma position_near:
  assumes d: "0 < d" and a: "0 \<le> a" "a \<le> d"
  shows "\<exists>v. js_sub (Fin 100) (js_mul (js_div (Fin a) (Fin d)) (Fin 100)) = Fin v \<and>
           0 \<le> v \<and> v \<le> 100 \<and> \<bar>v - (100 - 100 * (a / d))\<bar> \<le> 1 / 2 ^ 45"
proof -
  define x where "x = a / d"
  have x: "0 \<le> x" "x \<le> 1" using d a by (simp_all add: x_def)
  define r where "r = round_mag x"
  have r1: "rnd x = Fin r" "\<bar>r - x\<bar> \<le> 1 / 2 ^ 53" "0 \<le> r"
    using rnd_near [of x 0] x by (simp_all add: r_def power_int_minus)
  have r2: "r \<le> 1" unfolding r_def using x round_mag_one by (intro round_mag_le) simp_all
  have q: "js_div (Fin a) (Fin d) = Fin r"
  proof (cases "a = 0")
    case True
    then have "x = 0" by (simp add: x_def)
    then have "r = 0" by (simp add: r_def round_mag_zero)
    then show ?thesis using True d by (simp add: js_div_zero_Fin)
  next
    case False
    then show ?thesis using d r1(1) by (simp add: js_div_Fin x_def)
  qed
  define y where "y = r * 100"
  have y: "0 \<le> y" "y \<le> 100" using r1(3) r2 by (simp_all add: y_def)
  define p where "p = round_mag y"
  have p1: "rnd y = Fin p" "\<bar>p - y\<bar> \<le> 1 / 2 ^ 47" "0 \<le> p"
    using rnd_near [of y 6] y by (simp_all add: p_def power_int_minus)
  have p2: "p \<le> 100" unfolding p_def using y round_mag_hundred by (intro round_mag_le) simp_all
  have m: "js_mul (Fin r) (Fin 100) = Fin p"
  proof (cases "r = 0")
    case True
    then have "p = 0" by (simp add: p_def y_def round_mag_zero)
    then show ?thesis using True by (simp add: js_mul_zero_Fin)
  next
    case False
    then show ?thesis using p1(1) by (simp add: js_mul_Fin y_def)
  qed
  define z where "z = 100 - p"
  have z: "0 \<le> z" "z \<le> 100" using p1(3) p2 by (simp_all add: z_def)
  define v where "v = round_mag z"
  have v1: "rnd z = Fin v" "\<bar>v - z\<bar> \<le> 1 / 2 ^ 47" "0 \<le> v"
    using rnd_near [of z 6] z by (simp_all add: v_def power_int_minus)
  have v2: "v \<le> 100" unfolding v_def using z round_mag_hundred by (intro round_mag_le) simp_all
  have s: "js_sub (Fin 100) (Fin p) = Fin v" using v1(1) by (simp add: js_sub_Fin z_def)
  define A :: rat where "A = 1 / 2 ^ 47"
  define B :: rat where "B = 1 / 2 ^ 53"
  note b1 = v1(2) [folded A_def, unfolded abs_le_iff]
    and b2 = p1(2) [folded A_def, unfolded abs_le_iff]
    and b3 = r1(2) [folded B_def, unfolded abs_le_iff]
  have eq: "v - (100 - 100 * x) = (v - z) - (p - y) - 100 * (r - x)"
    by (simp add: z_def y_def algebra_simps)
  have "v - (100 - 100 * x) = (v - z) + (- (p - y)) + 100 * (- (r - x))"
    unfolding eq by (simp add: algebra_simps)
  also have "\<dots> \<le> A + A + 100 * B"
    using b1 b2 b3 by (intro add_mono mult_left_mono) simp_all
  finally have up: "v - (100 - 100 * x) \<le> A + A + 100 * B" .
  have "- (v - (100 - 100 * x)) = (- (v - z)) + (p - y) + 100 * (r - x)"
    unfolding eq by (simp add: algebra_simps)
  also have "\<dots> \<le> A + A + 100 * B"
    using b1 b2 b3 by (intro add_mono mult_left_mono) simp_all
  finally have lo: "- (v - (100 - 100 * x)) \<le> A + A + 100 * B" .
  have "\<bar>v - (100 - 100 * x)\<bar> \<le> A + A + 100 * B"
    using up lo by (simp only: abs_le_iff)
  also have "\<dots> \<le> 1 / 2 ^ 45" by (simp add: A_def B_def)
  finally have "\<bar>v - (100 - 100 * (a / d))\<bar> \<le> 1 / 2 ^ 45" by (simp only: x_def)
  then show ?thesis using q m s v1(3) v2 by simp
qed

subsection \<open>A marker seven milliseconds into a session of twenty seconds\<close>

lemma sample_position_steps:
  "js_sub (Fin 20000) (Fin 0) = Fin 20000"
  "js_sub (Fin 20000) (Fin 7) = Fin 19993"
  "js_div (Fin 19993) (Fin 20000) = Fin (9004046735001833 / 9007199254740992)"
  "js_mul (Fin (9004046735001833 / 9007199254740992)) (Fin 100) =
     Fin (3517205755860091 / 35184372088832)"
  "js_sub (Fin 100) (Fin (3517205755860091 / 35184372088832)) =
     Fin (1231453023109 / 35184372088832)"
  "hundredths (1231453023109 / 35184372088832) = 3"
proof -
  show "js_sub (Fin 20000) (Fin 0) = Fin 20000" "js_sub (Fin 20000) (Fin 7) = Fin 19993"
    by (simp_all add: js_sub_Fin)
  have "rnd (19993 / 20000) = Fin (9004046735001833 / 9007199254740992)"
    using rnd_pos_eqI [of "- 1" "19993 / 20000" 9004046735001833] by simp
  then show "js_div (Fin 19993) (Fin 20000) = Fin (9004046735001833 / 9007199254740992)"
    by (simp add: js_div_Fin)
  have "rnd (9004046735001833 / 9007199254740992 * 100) =
      Fin (3517205755860091 / 35184372088832)"
    using rnd_pos_eqI [of 6 "9004046735001833 / 9007199254740992 * 100" 7034411511720182]
    by simp
  then show "js_mul (Fin (9004046735001833 / 9007199254740992)) (Fin 100) =
      Fin (3517205755860091 / 35184372088832)"
    by (simp add: js_mul_Fin)
  have "rnd (100 - 3517205755860091 / 35184372088832) = Fin (1231453023109 / 35184372088832)"
    using rnd_pos_eqI [of "- 5" "100 - 3517205755860091 / 35184372088832" 5044031582654464]
    by simp
  then show "js_sub (Fin 100) (Fin (3517205755860091 / 35184372088832)) =
      Fin (1231453023109 / 35184372088832)"
    by (simp add: js_sub_Fin)
  show "hundredths (1231453023109 / 35184372088832) = 3"
    by (rule hundredths_eqI) simp_all
qed

lemma sample_position: "tag_position big (Fin 0) (Fin 20000) (Fin 7) = ''0.03''"
  by (simp add: tag_position_def sample_position_steps fixed2_values)

lemma sample_formula_steps:
  "js_sub (Fin 7) (Fin 0) = Fin 7"
  "js_mul (Fin 100) (Fin 7) = Fin 700"
  "js_div (Fin 700) (Fin 20000) = Fin (1261007895663739 / 36028797018963968)"
  "hundredths (1261007895663739 / 36028797018963968) = 4"
  "hundredths (7 / 200) = 4"
proof -
  show "js_sub (Fin 7) (Fin 0) = Fin 7" by (simp add: js_sub_Fin)
  show "js_mul (Fin 100) (Fin 7) = Fin 700" by (simp add: js_mul_Fin)
  have "rnd (700 / 20000) = Fin (1261007895663739 / 36028797018963968)"
    using rnd_pos_eqI [of "- 5" "700 / 20000" 5044031582654956] by simp
  then show "js_div (Fin 700) (Fin 20000) = Fin (1261007895663739 / 36028797018963968)"
    by (simp add: js_div_Fin)
  show "hundredths (1261007895663739 / 36028797018963968) = 4"
    by (rule hundredths_eqI) simp_all
  show "hundredths (7 / 200) = 4"
    by (rule hundredths_eqI) simp_all
qed

section \<open>The claims\<close>

subsection \<open>The sample controller\<close>

lemma sample_world_simps:
  "playerState sample_world = Paused" "engine_state sample_world = Paused"
  "speedState sample_world = Normal" "finished sample_world = False"
  "currentTime sample_world = Fin 0" "calls sample_world = []"
  "frames sample_world = {}" "timer sample_world = None" "totalTime sample_world = Fin 1000"
  "last_handle sample_world = 0"
  by (simp_all add: sample_world_def onMount_def)

lemma sample_engine_machine: "player_machine sample_engine"
  by (simp add: player_machine_def sample_engine_def)

lemma sample_engine_never_finishes: "never_finishes sample_engine"
  by (auto simp: never_finishes_def sample_engine_def split: EngineCall.splits PlayerState.splits)

lemma sample_played_simps:
  "playerState (play sample_engine sample_world) = Playing"
  "engine_state (play sample_engine sample_world) = Playing"
  "frames (play sample_engine sample_world) = {1}"
  "timer (play sample_engine sample_world) = Some 1"
  "last_handle (play sample_engine sample_world) = 1"
  "totalTime (play sample_engine sample_world) = Fin 1000"
  by (simp_all add: play_def sample_world_simps replayer_call_def sample_engine_def
      loopTimer_def stopTimer_def requestAnimationFrame_def Let_def)

lemma sample_playing_simps:
  "playerState sample_playing = Playing" "engine_state sample_playing = Playing"
  "frames sample_playing = {2}" "timer sample_playing = Some 2"
  "last_handle sample_playing = 2"
  by (simp_all add: sample_playing_def run_def update_def sample_played_simps
      requestAnimationFrame_def Let_def)

lemma sample_paused_eq: "sample_paused = pause sample_engine sample_playing"
  by (simp add: sample_paused_def sample_playing_def run_def)

lemma sample_paused_simps:
  "playerState sample_paused = Paused" "frames sample_paused = {}" "timer sample_paused = None"
  by (simp_all add: sample_paused_eq pause_def sample_playing_simps replayer_call_def
      sample_engine_def stopTimer_def cancelAnimationFrame_def Let_def)

subsection \<open>The exported operations\<close>



text \<open>
  Claim C5. \<^verbatim>\<open>toggle()\<close> while playing calls \<^verbatim>\<open>pause\<close> on the replayer; while paused it
  is \<^verbatim>\<open>play()\<close>, which calls \<^verbatim>\<open>play\<close> on the replayer; in any other player state it
  makes no call and leaves every variable as it was.
\<close>

theorem toggle_by_player_state:
  "(playerState w = Playing \<longrightarrow>
      toggle E w = replayer_call E Pause w \<and> calls (toggle E w) = calls w @ [Pause]) \<and>
   (playerState w = Paused \<longrightarrow>
      toggle E w = play E w \<and>
      calls (toggle E w) =
        calls w @ [Play (if finished w then None else Some (currentTime w))]) \<and>
   (playerState w \<noteq> Playing \<and> playerState w \<noteq> Paused \<longrightarrow> toggle E w = w)"
  by (cases "playerState w") (simp_all add: toggle_def pause_def play_def)

theorem toggle_by_player_state_witness:
  "playerState sample_world = Paused \<and>
   calls (toggle sample_engine sample_world) = [Play (Some (Fin 0))] \<and>
   calls (toggle sample_engine (sample_world\<lparr>playerState := Playing\<rparr>)) = [Pause] \<and>
   toggle sample_engine (sample_world\<lparr>playerState := Live\<rparr>) = sample_world\<lparr>playerState := Live\<rparr>"
  using toggle_by_player_state [of sample_world sample_engine]
    toggle_by_player_state [of "sample_world\<lparr>playerState := Playing\<rparr>" sample_engine]
    toggle_by_player_state [of "sample_world\<lparr>playerState := Live\<rparr>" sample_engine]
  by (simp add: sample_world_simps play_def)

text \<open>
  Claim C6. \<^verbatim>\<open>play()\<close> does nothing unless the player state is paused. When paused, it
  calls the replayer's \<^verbatim>\<open>play\<close> with no offset if the finished flag is set, and with the
  stored current time otherwise.
\<close>

theorem play_guarded:
  "(playerState w \<noteq> Paused \<longrightarrow> play E w = w) \<and>
   (playerState w = Paused \<and> finished w \<longrightarrow>
      calls (play E w) = calls w @ [Play None]) \<and>
   (playerState w = Paused \<and> \<not> finished w \<longrightarrow>
      play E w = replayer_call E (Play (Some (currentTime w))) w \<and>
      calls (play E w) = calls w @ [Play (Some (currentTime w))])"
  by (simp add: play_def)

theorem play_guarded_witness:
  "playerState sample_world = Paused \<and> \<not> finished sample_world \<and>
   calls (play sample_engine sample_world) = [Play (Some (Fin 0))] \<and>
   calls (play sample_engine (sample_world\<lparr>finished := True, currentTime := Fin 1000\<rparr>)) =
     [Play None] \<and>
   play sample_engine (sample_world\<lparr>playerState := Playing\<rparr>) =
     sample_world\<lparr>playerState := Playing\<rparr>"
  using play_guarded [of sample_world sample_engine]
    play_guarded [of "sample_world\<lparr>finished := True, currentTime := Fin 1000\<rparr>" sample_engine]
    play_guarded [of "sample_world\<lparr>playerState := Playing\<rparr>" sample_engine]
  by (simp add: sample_world_simps)



subsection \<open>The timer loop\<close>

text \<open>
  Claim C4. In every state the mounted component reaches (by its exported operations,
  clicks, render passes, notifications of the replayer, animation frames and the teardown),
  no request for \<^verbatim>\<open>update\<close> is pending while the player state is paused, and at most one
  is pending at any time. There \<^verbatim>\<open>loopTimer\<close> leaves exactly one request pending, the new
  one, and \<^verbatim>\<open>stopTimer\<close> leaves none. In any state at all, stopping a stopped timer
  changes nothing.
\<close>

theorem timer_loop_invariant:
  assumes "w = run E acts (onMount E autoPlay skip0 speed0 total0 player0 speedState0 config0 handle0)"
  shows "(playerState w = Paused \<longrightarrow> frames w = {}) \<and>
         finite (frames w) \<and> card (frames w) \<le> 1 \<and>
         frames (loopTimer w) = {Suc (last_handle w)} \<and>
         timer (loopTimer w) = Some (Suc (last_handle w)) \<and>
         frames (stopTimer w) = {} \<and>
         stopTimer (stopTimer w') = stopTimer w' \<and>
         (timer w' = None \<longrightarrow> stopTimer w' = w')"
proof -
  have i: "timer_inv w" unfolding assms by (intro run_inv onMount_inv)
  then have l: "loop_ok w" by (simp add: timer_inv_def)
  have c: "finite (frames w) \<and> card (frames w) \<le> 1" using l by (auto simp: loop_ok_def)
  show ?thesis
    using i c loopTimer_frames [OF l] stopTimer_frames [OF l]
    by (simp add: timer_inv_def stopTimer_idem stopTimer_noop)
qed

theorem timer_loop_invariant_witness:
  "playerState sample_playing = Playing \<and> frames sample_playing = {2} \<and>
   card (frames sample_playing) \<le> 1 \<and>
   frames (loopTimer sample_playing) = {3} \<and>
   playerState sample_paused = Paused \<and> frames sample_paused = {} \<and>
   stopTimer (stopTimer sample_playing) = stopTimer sample_playing \<and>
   timer sample_paused = None \<and> stopTimer sample_paused = sample_paused"
proof -
  have 1: "sample_playing = run sample_engine [DoPlay, Frame 1 (Fin 10)]
      (onMount sample_engine False False (Fin 1) (Fin 1000) Paused Normal False 0)"
    by (simp only: sample_playing_def sample_world_def)
  have 2: "sample_paused = run sample_engine [DoPlay, Frame 1 (Fin 10), DoPause]
      (onMount sample_engine False False (Fin 1) (Fin 1000) Paused Normal False 0)"
    by (simp only: sample_paused_def sample_world_def)
  show ?thesis
    using timer_loop_invariant [OF 1, of sample_playing]
      timer_loop_invariant [OF 2, of sample_paused]
    by (simp add: sample_playing_simps sample_paused_simps)
qed

subsection \<open>The progress track and the progress fraction\<close>






subsection \<open>The custom event markers\<close>

text \<open>
  Claim C9, as amended. For the log of a custom event tagged A at 0, a snapshot at 500 and a
  custom event tagged B at 1000, with the colour red configured for A, \<^verbatim>\<open>customEvents\<close>
  is, in log order, the marker A in red at \<open>0.00%\<close> and the marker B in the default colour
  at \<open>100.00%\<close>. The default colour is the string of the source, which has a space after
  each comma.
\<close>

theorem scenario_markers:
  "customEvents big [''A'' \<mapsto> ''red''] scenario_log =
     Inr [\<lparr>name = ''A'', background = ''red'', position = ''0.00%''\<rparr>,
          \<lparr>name = ''B'', background = ''rgb(73, 80, 246)'', position = ''100.00%''\<rparr>]"
proof -
  have d: "rnd (1000 - 0) = Fin 1000" "(1000::rat) \<noteq> 0" "(0::rat) < 1000" by simp_all
  show ?thesis
    by (simp add: customEvents_def scenario_log_def tag_background_def
        position_at_start [OF d(1,2)] position_at_end [OF d(1,3)])
qed

text \<open>
  The list of claim C9, whose default colour is written without spaces, is not what the
  computation returns.
\<close>

theorem scenario_markers_counterexample:
  "\<forall>big. customEvents big [''A'' \<mapsto> ''red''] scenario_log \<noteq>
     Inr [\<lparr>name = ''A'', background = ''red'', position = ''0.00%''\<rparr>,
          \<lparr>name = ''B'', background = ''rgb(73,80,246)'', position = ''100.00%''\<rparr>]"
proof -
  have d: "rnd (1000 - 0) = Fin 1000" "(1000::rat) \<noteq> 0" "(0::rat) < 1000" by simp_all
  show ?thesis
    by (simp add: customEvents_def scenario_log_def tag_background_def
        position_at_start [OF d(1,2)] position_at_end [OF d(1,3)])
qed

text \<open>
  Claim C2, as amended. On a log that is not empty and whose first and last events have the
  same timestamp, \<^verbatim>\<open>customEvents\<close> does not throw: it returns one marker per custom
  event, in log order, and the position of each is \<open>NaN%\<close>, \<open>Infinity%\<close> or
  \<open>-Infinity%\<close>, never \<open>0.00%\<close>. When every event has that timestamp, every position is
  \<open>NaN%\<close>.
\<close>

theorem zero_duration_markers:
  assumes "events \<noteq> []" and "js_eq (timestamp (hd events)) (timestamp (last events))"
  shows "\<exists>ms. customEvents big tags events = Inr ms \<and>
           map name ms = map tag (filter (\<lambda>ev. ev_type ev = Custom) events) \<and>
           (\<forall>m \<in> set ms. position m \<in> {''NaN%'', ''Infinity%'', ''-Infinity%''} \<and>
                          position m \<noteq> ''0.00%'') \<and>
           ((\<forall>ev \<in> set events. js_eq (timestamp ev) (timestamp (last events))) \<longrightarrow>
              (\<forall>m \<in> set ms. position m = ''NaN%''))"
proof -
  define s where "s = timestamp (hd events)"
  define e where "e = timestamp (last events)"
  define ms where "ms = collect big tags s e events"
  have c: "customEvents big tags events = Inr ms"
    using assms(1) by (simp add: customEvents_def ms_def s_def e_def)
  have z: "js_eq s e" using assms(2) by (simp add: s_def e_def)
  have n: "map name ms = map tag (filter (\<lambda>ev. ev_type ev = Custom) events)"
    by (simp add: ms_def collect_map comp_def)
  have p: "position m \<in> {''NaN%'', ''Infinity%'', ''-Infinity%''} \<and> position m \<noteq> ''0.00%''"
    if mm: "m \<in> set ms" for m
  proof -
    obtain ev where m: "position m = tag_position big s e (timestamp ev) @ ''%''"
      and ev: "ev \<in> set events"
      using mm collect_position [of m big tags s e events] unfolding ms_def by blast
    have "tag_position big s e (timestamp ev) \<in> {''NaN'', ''Infinity'', ''-Infinity''}"
      using z by (rule zero_duration_position(1))
    then show ?thesis unfolding m by auto
  qed
  have q: "position m = ''NaN%''"
    if mm: "m \<in> set ms" and al: "\<forall>ev \<in> set events. js_eq (timestamp ev) e" for m
  proof -
    obtain ev where m: "position m = tag_position big s e (timestamp ev) @ ''%''"
      and ev: "ev \<in> set events"
      using mm collect_position [of m big tags s e events] unfolding ms_def by blast
    have "tag_position big s e (timestamp ev) = ''NaN''"
      using z al ev by (intro zero_duration_position(2)) simp_all
    then show ?thesis unfolding m by simp
  qed
  show ?thesis using c n p q unfolding e_def by blast
qed

theorem zero_duration_markers_witness:
  "zero_duration_log \<noteq> [] \<and>
   js_eq (timestamp (hd zero_duration_log)) (timestamp (last zero_duration_log)) \<and>
   (\<exists>ms. customEvents (\<lambda>q. []) Map.empty zero_duration_log = Inr ms \<and>
      map name ms = [''A'', ''B''] \<and> map position ms = [''NaN%'', ''NaN%''])"
proof -
  have 1: "zero_duration_log \<noteq> []" by (simp add: zero_duration_log_def)
  have 2: "js_eq (timestamp (hd zero_duration_log)) (timestamp (last zero_duration_log))"
    by (simp add: zero_duration_log_def js_eq_def)
  have 3: "\<forall>ev \<in> set zero_duration_log. js_eq (timestamp ev) (timestamp (last zero_duration_log))"
    by (simp add: zero_duration_log_def js_eq_def)
  obtain ms where ms: "customEvents (\<lambda>q. []) Map.empty zero_duration_log = Inr ms"
    "map name ms = map tag (filter (\<lambda>ev. ev_type ev = Custom) zero_duration_log)"
    "\<forall>m \<in> set ms. position m = ''NaN%''"
    using zero_duration_markers [OF 1 2, of "\<lambda>q. []" Map.empty] 3 by blast
  have l: "map name ms = [''A'', ''B'']" using ms(2) by (simp add: zero_duration_log_def)
  then have "length ms = 2" by (metis length_map length_Cons list.size(3) numeral_2_eq_2)
  then obtain a b where "ms = [a, b]"
    by (cases ms; simp; metis length_0_conv length_Suc_conv)
  then have "map position ms = [''NaN%'', ''NaN%'']" using ms(3) by simp
  then have "\<exists>ms. customEvents (\<lambda>q. []) Map.empty zero_duration_log = Inr ms \<and>
      map name ms = [''A'', ''B''] \<and> map position ms = [''NaN%'', ''NaN%'']"
    using ms(1) l by (intro exI [of _ ms]) simp
  then show ?thesis by (intro conjI 1 2)
qed

text \<open>
  Claim C2 as stated fails on a log of two custom events at the same timestamp: both
  markers are at \<open>NaN%\<close>, not at \<open>0.00%\<close>.
\<close>

theorem zero_duration_markers_counterexample:
  "\<forall>big. customEvents big Map.empty zero_duration_log =
     Inr [\<lparr>name = ''A'', background = ''rgb(73, 80, 246)'', position = ''NaN%''\<rparr>,
          \<lparr>name = ''B'', background = ''rgb(73, 80, 246)'', position = ''NaN%''\<rparr>] \<and>
     js_eq (timestamp (hd zero_duration_log)) (timestamp (last zero_duration_log)) \<and>
     ''NaN%'' \<noteq> ''0.00%''"
proof -
  have z: "js_eq (Fin 5) (Fin 5)" by (simp add: js_eq_def)
  show ?thesis
    using zero_duration_position(2) [OF z z]
    by (simp add: customEvents_def zero_duration_log_def tag_background_def js_eq_def)
qed




end
